theory Spec2Isabelle
  imports Complex_Main "HOL-Library.Sublist"
begin

section \<open>JavaScript values and strings\<close>

text \<open>
  A JavaScript string is modelled as a \<^typ>\<open>string\<close> holding its UTF-8 bytes, so that a
  character outside ASCII is several \<^typ>\<open>char\<close>s (\<open>U+00E9\<close> is \<open>C3 A9\<close>, the
  replacement character \<open>U+FFFD\<close> is \<open>EF BF BD\<close>); a string with half a surrogate pair
  has no such form and is outside the model.  The functions below are the
  \<^verbatim>\<open>String.prototype\<close> methods the extension calls, with the argument conventions of the
  language (\<^verbatim>\<open>indexOf\<close> answers -1 when nothing is found, \<^verbatim>\<open>substring\<close> clamps
  its arguments and swaps them when they are out of order).  Positions count the
  \<^typ>\<open>char\<close>s of this form; the extension passes the position of a newline that
  \<^verbatim>\<open>indexOf\<close> found back to \<^verbatim>\<open>substring\<close> and uses no other position.

  A \<^verbatim>\<open>Buffer\<close> is the list of its bytes.
\<close>

type_synonym bytes = "char list"

abbreviation NL :: char where
  "NL \<equiv> CHR 0x0A"

definition str_includes :: "string \<Rightarrow> char \<Rightarrow> bool" where
  "str_includes s c = (c \<in> set s)"

definition indexOf :: "string \<Rightarrow> char \<Rightarrow> int" where
  "indexOf s c = (if c \<in> set s then int (length (takeWhile (\<lambda>x. x \<noteq> c) s)) else - 1)"

definition clamp_index :: "string \<Rightarrow> int \<Rightarrow> nat" where
  "clamp_index s i = (if i < 0 then 0 else min (nat i) (length s))"

definition substring2 :: "string \<Rightarrow> int \<Rightarrow> int \<Rightarrow> string" where
  "substring2 s a b =
     (let lo = min (clamp_index s a) (clamp_index s b);
          hi = max (clamp_index s a) (clamp_index s b)
      in take (hi - lo) (drop lo s))"

definition substring1 :: "string \<Rightarrow> int \<Rightarrow> string" where
  "substring1 s a = substring2 s a (int (length s))"

text \<open>
  \<^verbatim>\<open>trim\<close> removes white space and line terminators from both ends.  These are
  the characters the language counts as such: tab, line feed, vertical tab, form feed,
  carriage return, space, \<open>U+00A0\<close>, \<open>U+1680\<close>, \<open>U+2000\<close> to \<open>U+200A\<close>,
  \<open>U+2028\<close>, \<open>U+2029\<close>, \<open>U+202F\<close>, \<open>U+205F\<close>, \<open>U+3000\<close> and \<open>U+FEFF\<close>.
\<close>

definition js_white_space :: "string list" where
  "js_white_space =
     [[CHR 0x09], [CHR 0x0A], [CHR 0x0B], [CHR 0x0C], [CHR 0x0D], [CHR 0x20],
      [CHR 0xC2, CHR 0xA0], [CHR 0xE1, CHR 0x9A, CHR 0x80],
      [CHR 0xE2, CHR 0x80, CHR 0x80], [CHR 0xE2, CHR 0x80, CHR 0x81],
      [CHR 0xE2, CHR 0x80, CHR 0x82], [CHR 0xE2, CHR 0x80, CHR 0x83],
      [CHR 0xE2, CHR 0x80, CHR 0x84], [CHR 0xE2, CHR 0x80, CHR 0x85],
      [CHR 0xE2, CHR 0x80, CHR 0x86], [CHR 0xE2, CHR 0x80, CHR 0x87],
      [CHR 0xE2, CHR 0x80, CHR 0x88], [CHR 0xE2, CHR 0x80, CHR 0x89],
      [CHR 0xE2, CHR 0x80, CHR 0x8A], [CHR 0xE2, CHR 0x80, CHR 0xA8],
      [CHR 0xE2, CHR 0x80, CHR 0xA9], [CHR 0xE2, CHR 0x80, CHR 0xAF],
      [CHR 0xE2, CHR 0x81, CHR 0x9F], [CHR 0xE3, CHR 0x80, CHR 0x80],
      [CHR 0xEF, CHR 0xBB, CHR 0xBF]]"

text \<open>Remove, as long as there is one, a member of \<open>ws\<close> from the start of \<open>s\<close>.\<close>

function strip_start :: "string list \<Rightarrow> string \<Rightarrow> string" where
  "strip_start ws s =
     (case find (\<lambda>w. w \<noteq> [] \<and> prefix w s) ws of
        None \<Rightarrow> s
      | Some w \<Rightarrow> strip_start ws (drop (length w) s))"
  by pat_completeness auto

lemma strip_start_shorter:
  "find (\<lambda>w. w \<noteq> [] \<and> prefix w s) ws = Some w \<Longrightarrow> length (drop (length w) s) < length s"
proof -
  assume "find (\<lambda>w. w \<noteq> [] \<and> prefix w s) ws = Some w"
  then have "w \<noteq> []" and "prefix w s"
    by (auto simp: find_Some_iff)
  then show ?thesis
    by (cases w) (auto simp: prefix_def)
qed

termination strip_start
proof (relation "measure (\<lambda>(ws, s). length s)", goal_cases)
  case 1
  show ?case by simp
next
  case (2 ws s w)
  then show ?case
    using strip_start_shorter [of s ws w] by simp
qed

declare strip_start.simps [simp del]

definition trim :: "string \<Rightarrow> string" where
  "trim s = rev (strip_start (map rev js_white_space) (rev (strip_start js_white_space s)))"

text \<open>\<^verbatim>\<open>Array.prototype.join\<close> on an array of strings.\<close>

fun join_str :: "string \<Rightarrow> string list \<Rightarrow> string" where
  "join_str sep [] = []"
| "join_str sep [x] = x"
| "join_str sep (x # y # ys) = x @ sep @ join_str sep (y # ys)"

text \<open>
  The result of \<^verbatim>\<open>JSON.parse\<close> is a JSON value; \<^verbatim>\<open>undefined\<close> is the
  \<open>None\<close> of \<^typ>\<open>'a option\<close>.
\<close>

datatype json =
    JNull
  | JBool bool
  | JNum rat
  | JStr string
  | JArr "json list"
  | JObj "(string \<times> json) list"

type_synonym jsval = "json option"

text \<open>
  What can be thrown or used to reject a promise: the engine's SyntaxError and TypeError,
  an AxiosError with the HTTP status of its response (if any) and its message, an
  \<^verbatim>\<open>Error\<close> created with a message, and a bare string.
\<close>

datatype js_error =
    SyntaxError
  | TypeError
  | AxiosError "nat option" string
  | Error string
  | StringValue string

text \<open>
  Reading a property (\<^verbatim>\<open>v.name\<close>, \<^verbatim>\<open>v[0]\<close> with the name \<open>''0''\<close>), for the
  names the extension reads: \<^verbatim>\<open>response\<close>, \<^verbatim>\<open>choices\<close>, \<^verbatim>\<open>0\<close>,
  \<^verbatim>\<open>delta\<close>, \<^verbatim>\<open>content\<close>.  Reading from \<^verbatim>\<open>null\<close> or \<^verbatim>\<open>undefined\<close>
  throws a TypeError; numbers and booleans have none of these properties; a string and
  an array have the index only.  An object is the list of its own properties, one entry
  per name.  The index 0 of a string is its first character, which \<open>first_character\<close>
  cuts off by the length its first byte announces (for a character written as a
  surrogate pair the language gives the first half; the extension only reads properties
  of the result, and a string has none of the names it reads).
\<close>

definition first_character :: "string \<Rightarrow> string" where
  "first_character s =
     (case s of
        [] \<Rightarrow> []
      | c # _ \<Rightarrow>
          take (if (of_char c :: nat) < 0x80 then 1
                else if (of_char c :: nat) < 0xE0 then 2
                else if (of_char c :: nat) < 0xF0 then 3 else 4) s)"

fun getProp :: "jsval \<Rightarrow> string \<Rightarrow> js_error + jsval" where
  "getProp None k = Inl TypeError"
| "getProp (Some JNull) k = Inl TypeError"
| "getProp (Some (JObj kvs)) k = Inr (map_of kvs k)"
| "getProp (Some (JArr xs)) k =
     Inr (if k = ''0'' then (case xs of [] \<Rightarrow> None | x # _ \<Rightarrow> Some x) else None)"
| "getProp (Some (JStr s)) k =
     Inr (if k = ''0'' \<and> s \<noteq> [] then Some (JStr (first_character s)) else None)"
| "getProp (Some (JNum n)) k = Inr None"
| "getProp (Some (JBool b)) k = Inr None"

text \<open>The truth value of a condition \<^verbatim>\<open>if (v)\<close>.\<close>

fun truthy :: "jsval \<Rightarrow> bool" where
  "truthy None = False"
| "truthy (Some JNull) = False"
| "truthy (Some (JBool b)) = b"
| "truthy (Some (JNum n)) = (n \<noteq> 0)"
| "truthy (Some (JStr s)) = (s \<noteq> [])"
| "truthy (Some (JArr xs)) = True"
| "truthy (Some (JObj kvs)) = True"

text \<open>
  \<^verbatim>\<open>str += v\<close> appends the string itself when \<open>v\<close> is a string and the
  language's string conversion of \<open>v\<close> otherwise; that conversion is the parameter
  \<open>ToString\<close>.
\<close>

fun concat_value :: "(json \<Rightarrow> string) \<Rightarrow> string \<Rightarrow> json \<Rightarrow> string" where
  "concat_value ToString acc (JStr s) = acc @ s"
| "concat_value ToString acc v = acc @ ToString v"

section \<open>Messages to the webview and the console\<close>

datatype webview_msg =
    StartResponse
  | StreamChunk json
  | StreamComplete
  | ErrorMsg string

datatype effect =
    PostMessage webview_msg
  | ConsoleError

section \<open>The self-hosted stream: \<^verbatim>\<open>processBuffer\<close>\<close>

record stream_state =
  fullResponse :: string
  buffer :: string

text \<open>
  The body of the \<^verbatim>\<open>if (line)\<close> block of \<^verbatim>\<open>processBuffer\<close>: the
  \<^verbatim>\<open>try\<close> parses the line and reads \<^verbatim>\<open>parsed.response\<close>; whatever is thrown
  there is caught and logged.  \<open>JSON_parse\<close> is the library's parser, \<open>None\<close> when it
  throws.  Posting to the webview and logging are recorded in order in the list of
  effects; they do not throw.
\<close>

definition process_line ::
  "(string \<Rightarrow> json option) \<Rightarrow> (json \<Rightarrow> string) \<Rightarrow> string \<Rightarrow>
   stream_state \<times> effect list \<Rightarrow> stream_state \<times> effect list" where
  "process_line JSON_parse ToString line = (\<lambda>(st, out).
     if line = [] then (st, out)
     else (case JSON_parse line of
             None \<Rightarrow> (st, out @ [ConsoleError])
           | Some parsed \<Rightarrow>
               (case getProp (Some parsed) ''response'' of
                  Inl e \<Rightarrow> (st, out @ [ConsoleError])
                | Inr None \<Rightarrow> (st, out)
                | Inr (Some r) \<Rightarrow>
                    if truthy (Some r)
                    then (st\<lparr>fullResponse := concat_value ToString (fullResponse st) r\<rparr>,
                          out @ [PostMessage (StreamChunk r)])
                    else (st, out))))"

lemma buffer_process_line [simp]:
  "buffer (fst (process_line P T line (st, out))) = buffer st"
  by (simp add: process_line_def split: option.splits sum.splits)

function processBuffer ::
  "(string \<Rightarrow> json option) \<Rightarrow> (json \<Rightarrow> string) \<Rightarrow>
   stream_state \<times> effect list \<Rightarrow> stream_state \<times> effect list" where
  "processBuffer JSON_parse ToString (st, out) =
     (if str_includes (buffer st) NL then
        (let line = trim (substring2 (buffer st) 0 (indexOf (buffer st) NL));
             st' = st\<lparr>buffer := substring1 (buffer st) (indexOf (buffer st) NL + 1)\<rparr>
         in processBuffer JSON_parse ToString (process_line JSON_parse ToString line (st', out)))
      else (st, out))"
  by pat_completeness auto

lemma length_takeWhile_lt:
  "c \<in> set s \<Longrightarrow> length (takeWhile (\<lambda>x. x \<noteq> c) s) < length s"
  by (induction s) auto

lemma indexOf_found:
  "c \<in> set s \<Longrightarrow> indexOf s c = int (length (takeWhile (\<lambda>x. x \<noteq> c) s))"
  by (simp add: indexOf_def)

lemma substring1_after_newline:
  assumes c: "c \<in> set s"
  shows "substring1 s (indexOf s c + 1) = tl (dropWhile (\<lambda>x. x \<noteq> c) s)"
proof -
  let ?n = "length (takeWhile (\<lambda>x. x \<noteq> c) s)"
  have lt: "?n < length s"
    using c by (rule length_takeWhile_lt)
  have ci: "clamp_index s (indexOf s c + 1) = Suc ?n"
    using lt by (simp add: indexOf_found [OF c] clamp_index_def)
  have cl: "clamp_index s (int (length s)) = length s"
    by (simp add: clamp_index_def)
  have "substring1 s (indexOf s c + 1) = drop (Suc ?n) s"
    unfolding substring1_def substring2_def Let_def ci cl using lt by (simp add: min_def max_def)
  also have "\<dots> = tl (drop ?n s)"
    by (simp add: drop_Suc tl_drop)
  also have "drop ?n s = dropWhile (\<lambda>x. x \<noteq> c) s"
    by (simp only: dropWhile_eq_drop)
  finally show ?thesis .
qed

lemma substring2_before_newline:
  assumes c: "c \<in> set s"
  shows "substring2 s 0 (indexOf s c) = takeWhile (\<lambda>x. x \<noteq> c) s"
proof -
  let ?n = "length (takeWhile (\<lambda>x. x \<noteq> c) s)"
  have lt: "?n < length s"
    using c by (rule length_takeWhile_lt)
  have ci: "clamp_index s (indexOf s c) = ?n"
    using lt by (simp add: indexOf_found [OF c] clamp_index_def)
  have c0: "clamp_index s 0 = 0"
    by (simp add: clamp_index_def)
  have "substring2 s 0 (indexOf s c) = take ?n s"
    unfolding substring2_def Let_def ci c0 by simp
  also have "\<dots> = takeWhile (\<lambda>x. x \<noteq> c) s"
    by (rule takeWhile_eq_take [symmetric])
  finally show ?thesis .
qed

lemma length_after_newline:
  assumes c: "c \<in> set s"
  shows "length (substring1 s (indexOf s c + 1)) < length s"
proof -
  have "length (tl (dropWhile (\<lambda>x. x \<noteq> c) s)) < length s"
    using c by (induction s) (auto simp: less_Suc_eq_le intro: le_trans [OF length_dropWhile_le])
  then show ?thesis
    by (simp only: substring1_after_newline [OF c])
qed

termination processBuffer
proof (relation "measure (\<lambda>(P, T, st, out). length (buffer st))", goal_cases)
  case 1
  show ?case by simp
next
  case (2 P T st out line st')
  obtain st2 out2 where r: "process_line P T line (st', out) = (st2, out2)"
    by (cases "process_line P T line (st', out)")
  have "buffer st2 = buffer st'"
    using buffer_process_line [of P T line st' out] r by simp
  then show ?case
    using 2 r by (simp add: str_includes_def length_after_newline)
qed

declare processBuffer.simps [simp del]

text \<open>
  The two statements of the data handler that follow its abort test:
  \<^verbatim>\<open>streamState.buffer += chunk.toString(); processBuffer(streamState, panel)\<close>.
  The chunk is a \<^verbatim>\<open>Buffer\<close>, and each chunk is decoded on its own;
  \<open>Buffer_toString\<close> is the library's decoder (UTF-8, with \<open>U+FFFD\<close> for bytes that
  are not well-formed).  \<open>feed\<close> is a sequence of such events.
\<close>

definition data_step ::
  "(string \<Rightarrow> json option) \<Rightarrow> (json \<Rightarrow> string) \<Rightarrow> (bytes \<Rightarrow> string) \<Rightarrow> bytes \<Rightarrow>
   stream_state \<times> effect list \<Rightarrow> stream_state \<times> effect list" where
  "data_step JSON_parse ToString Buffer_toString chunk = (\<lambda>(st, out).
     processBuffer JSON_parse ToString
       (st\<lparr>buffer := buffer st @ Buffer_toString chunk\<rparr>, out))"

definition feed ::
  "(string \<Rightarrow> json option) \<Rightarrow> (json \<Rightarrow> string) \<Rightarrow> (bytes \<Rightarrow> string) \<Rightarrow> bytes list \<Rightarrow>
   stream_state \<times> effect list \<Rightarrow> stream_state \<times> effect list" where
  "feed JSON_parse ToString Buffer_toString chunks start =
     foldl (\<lambda>acc chunk. data_step JSON_parse ToString Buffer_toString chunk acc) start chunks"

definition streamState0 :: stream_state where
  "streamState0 = \<lparr>fullResponse = [], buffer = []\<rparr>"

fun split_lines :: "string \<Rightarrow> string list \<times> string" where
  "split_lines [] = ([], [])"
| "split_lines (c # cs) =
     (case split_lines cs of (ls, r) \<Rightarrow>
        if c = NL then ([] # ls, r)
        else (case ls of [] \<Rightarrow> ([], c # r) | l # ls' \<Rightarrow> ((c # l) # ls', r)))"

definition run_lines where
  "run_lines P T ls start = foldl (\<lambda>acc l. process_line P T (trim l) acc) start ls"

lemma split_lines_no_newline: "NL \<notin> set s \<Longrightarrow> split_lines s = ([], s)"
  by (induction s) auto

lemma split_lines_line:
  "NL \<notin> set l \<Longrightarrow> split_lines (l @ NL # s) = (l # fst (split_lines s), snd (split_lines s))"
  by (induction l) (auto split: prod.splits)

lemma split_at_newline:
  "c \<in> set s \<Longrightarrow> s = takeWhile (\<lambda>x. x \<noteq> c) s @ c # tl (dropWhile (\<lambda>x. x \<noteq> c) s)"
  by (induction s) auto

lemma process_line_buffer_update:
  "process_line P T line (st\<lparr>buffer := b\<rparr>, out) =
     (case process_line P T line (st, out) of (st', out') \<Rightarrow> (st'\<lparr>buffer := b\<rparr>, out'))"
  by (simp add: process_line_def split: option.splits sum.splits)

lemma run_lines_buffer_update:
  "run_lines P T ls (st\<lparr>buffer := b\<rparr>, out) =
     (case run_lines P T ls (st, out) of (st', out') \<Rightarrow> (st'\<lparr>buffer := b\<rparr>, out'))"
proof (induction ls arbitrary: st out)
  case Nil
  show ?case by (simp add: run_lines_def)
next
  case (Cons l ls)
  obtain st1 out1 where p: "process_line P T (trim l) (st, out) = (st1, out1)"
    by (cases "process_line P T (trim l) (st, out)")
  have "run_lines P T (l # ls) (st\<lparr>buffer := b\<rparr>, out) = run_lines P T ls (st1\<lparr>buffer := b\<rparr>, out1)"
    by (simp add: run_lines_def process_line_buffer_update p)
  also have "\<dots> = (case run_lines P T ls (st1, out1) of (st', out') \<Rightarrow> (st'\<lparr>buffer := b\<rparr>, out'))"
    by (rule Cons.IH)
  also have "run_lines P T ls (st1, out1) = run_lines P T (l # ls) (st, out)"
    by (simp add: run_lines_def p)
  finally show ?case .
qed

lemma processBuffer_lines:
  "processBuffer P T (st, out) =
     (case run_lines P T (fst (split_lines (buffer st))) (st, out) of
        (st', out') \<Rightarrow> (st'\<lparr>buffer := snd (split_lines (buffer st))\<rparr>, out'))"
proof (induction P T "(st, out)" arbitrary: st out rule: processBuffer.induct)
  case (1 P T st out)
  show ?case
  proof (cases "NL \<in> set (buffer st)")
    case False
    then show ?thesis
      by (subst processBuffer.simps) (simp add: str_includes_def split_lines_no_newline run_lines_def)
  next
    case True
    let ?l = "takeWhile (\<lambda>x. x \<noteq> NL) (buffer st)"
    let ?r = "tl (dropWhile (\<lambda>x. x \<noteq> NL) (buffer st))"
    obtain st1 out1 where p: "process_line P T (trim ?l) (st, out) = (st1, out1)"
      by (cases "process_line P T (trim ?l) (st, out)")
    have p': "process_line P T (trim ?l) (st\<lparr>buffer := ?r\<rparr>, out) = (st1\<lparr>buffer := ?r\<rparr>, out1)"
      by (simp add: process_line_buffer_update p)
    have sp: "split_lines (buffer st) = (?l # fst (split_lines ?r), snd (split_lines ?r))"
    proof -
      have "NL \<notin> set ?l"
        by (metis (mono_tags, lifting) set_takeWhileD)
      from split_lines_line [OF this, of ?r] split_at_newline [OF True] show ?thesis
        by simp
    qed
    have step: "processBuffer P T (st, out) = processBuffer P T (st1\<lparr>buffer := ?r\<rparr>, out1)"
      using True p'
      by (subst processBuffer.simps)
        (simp add: str_includes_def substring1_after_newline substring2_before_newline)
    have ih: "processBuffer P T (st1\<lparr>buffer := ?r\<rparr>, out1) =
        (case run_lines P T (fst (split_lines ?r)) (st1\<lparr>buffer := ?r\<rparr>, out1) of
           (st', out') \<Rightarrow> (st'\<lparr>buffer := snd (split_lines ?r)\<rparr>, out'))"
      using "1.hyps" [of "trim ?l" "st\<lparr>buffer := ?r\<rparr>" "st1\<lparr>buffer := ?r\<rparr>" out1] True p'
      by (simp add: str_includes_def substring1_after_newline substring2_before_newline)
    show ?thesis
      unfolding step ih sp
      by (simp add: run_lines_def p run_lines_buffer_update [unfolded run_lines_def] split: prod.splits)
  qed
qed


lemma split_lines_rest_no_newline: "NL \<notin> set (snd (split_lines s))"
  by (induction s) (auto split: prod.splits list.splits)

lemma split_lines_append:
  "split_lines (a @ b) =
     (fst (split_lines a) @ fst (split_lines (snd (split_lines a) @ b)),
      snd (split_lines (snd (split_lines a) @ b)))"
  by (induction a) (auto split: prod.splits list.splits)

lemma run_lines_append:
  "run_lines P T (ls1 @ ls2) start = run_lines P T ls2 (run_lines P T ls1 start)"
  by (simp add: run_lines_def)

lemma data_step_lines:
  "data_step P T D c (st, out) =
     (case run_lines P T (fst (split_lines (buffer st @ D c))) (st, out) of
        (st', out') \<Rightarrow> (st'\<lparr>buffer := snd (split_lines (buffer st @ D c))\<rparr>, out'))"
  by (simp add: data_step_def processBuffer_lines run_lines_buffer_update split: prod.splits)

lemma feed_lines:
  "NL \<notin> set (buffer st) \<Longrightarrow>
   feed P T D chunks (st, out) =
     (case run_lines P T (fst (split_lines (buffer st @ concat (map D chunks)))) (st, out) of
        (st', out') \<Rightarrow>
          (st'\<lparr>buffer := snd (split_lines (buffer st @ concat (map D chunks)))\<rparr>, out'))"
proof (induction chunks arbitrary: st out)
  case Nil
  then show ?case
    by (simp add: feed_def split_lines_no_newline run_lines_def)
next
  case (Cons c cs)
  let ?ls1 = "fst (split_lines (buffer st @ D c))"
  let ?r1 = "snd (split_lines (buffer st @ D c))"
  let ?rest = "concat (map D cs)"
  obtain st1 out1 where r: "run_lines P T ?ls1 (st, out) = (st1, out1)"
    by (cases "run_lines P T ?ls1 (st, out)")
  have d: "data_step P T D c (st, out) = (st1\<lparr>buffer := ?r1\<rparr>, out1)"
    by (simp add: data_step_lines r)
  have "feed P T D (c # cs) (st, out) = feed P T D cs (st1\<lparr>buffer := ?r1\<rparr>, out1)"
    by (simp add: feed_def d)
  also have "\<dots> =
     (case run_lines P T (fst (split_lines (?r1 @ ?rest))) (st1\<lparr>buffer := ?r1\<rparr>, out1) of
        (st', out') \<Rightarrow> (st'\<lparr>buffer := snd (split_lines (?r1 @ ?rest))\<rparr>, out'))"
    using Cons.IH [of "st1\<lparr>buffer := ?r1\<rparr>" out1] split_lines_rest_no_newline [of "buffer st @ D c"]
    by simp
  also have "\<dots> =
     (case run_lines P T (fst (split_lines (?r1 @ ?rest))) (st1, out1) of
        (st', out') \<Rightarrow> (st'\<lparr>buffer := snd (split_lines (?r1 @ ?rest))\<rparr>, out'))"
    by (simp add: run_lines_buffer_update split: prod.splits)
  finally show ?case
    using split_lines_append [of "buffer st @ D c" ?rest]
    by (simp add: run_lines_append r)
qed

text \<open>
  Chunks whose decoded texts make up the decoded text of one buffer are handled as that
  buffer is.
\<close>

lemma feed_one_chunk:
  "NL \<notin> set (buffer st) \<Longrightarrow> D whole = concat (map D chunks) \<Longrightarrow>
   feed P T D chunks (st, out) = data_step P T D whole (st, out)"
  by (simp add: feed_lines data_step_lines)

lemma takeWhile_dropWhile_same: "takeWhile P (dropWhile P xs) = []"
  by (induction xs) auto

lemma split_lines_rest:
  "snd (split_lines s) = rev (takeWhile (\<lambda>c. c \<noteq> NL) (rev s))"
proof (induction s rule: rev_induct)
  case Nil
  show ?case by simp
next
  case (snoc x xs)
  let ?r = "snd (split_lines xs)"
  have nl: "NL \<notin> set ?r"
    by (rule split_lines_rest_no_newline)
  have app: "snd (split_lines (xs @ [x])) = snd (split_lines (?r @ [x]))"
    by (subst split_lines_append) simp
  show ?case
  proof (cases "x = NL")
    case True
    have "split_lines (?r @ NL # []) = (?r # fst (split_lines []), snd (split_lines []))"
      using nl by (rule split_lines_line)
    then show ?thesis
      using True app by simp
  next
    case False
    then have "NL \<notin> set (?r @ [x])"
      using nl by simp
    then have "split_lines (?r @ [x]) = ([], ?r @ [x])"
      by (rule split_lines_no_newline)
    then show ?thesis
      using False app snoc.IH by simp
  qed
qed

lemma split_lines_complete_prefix:
  "split_lines s =
     (fst (split_lines (rev (dropWhile (\<lambda>c. c \<noteq> NL) (rev s)))),
      rev (takeWhile (\<lambda>c. c \<noteq> NL) (rev s)))"
proof -
  let ?pre = "rev (dropWhile (\<lambda>c. c \<noteq> NL) (rev s))"
  let ?rem = "rev (takeWhile (\<lambda>c. c \<noteq> NL) (rev s))"
  have s: "s = ?pre @ ?rem"
    by (metis rev_append rev_rev_ident takeWhile_dropWhile_id)
  have e: "snd (split_lines ?pre) = []"
    by (simp add: split_lines_rest takeWhile_dropWhile_same)
  have n: "NL \<notin> set ?rem"
    by (metis (mono_tags, lifting) set_rev set_takeWhileD)
  have "split_lines (?pre @ ?rem) = (fst (split_lines ?pre), ?rem)"
    by (subst split_lines_append) (simp add: e split_lines_no_newline [OF n])
  with s show ?thesis by simp
qed

text \<open>
  When decoding the whole buffer gives the decoded chunks one after the other (no chunk
  boundary falls inside a character), the chunks leave the stream state, the messages
  and the log as the whole buffer does, and what follows the last newline stays in
  \<open>buffer\<close>.
\<close>

lemma feed_split_between_characters:
  assumes "Buffer_toString (concat chunks) = concat (map Buffer_toString chunks)"
  shows "feed JSON_parse ToString Buffer_toString chunks (streamState0, []) =
           data_step JSON_parse ToString Buffer_toString (concat chunks) (streamState0, [])
    \<and> buffer (fst (feed JSON_parse ToString Buffer_toString chunks (streamState0, []))) =
        rev (takeWhile (\<lambda>c. c \<noteq> NL) (rev (Buffer_toString (concat chunks))))"
proof -
  let ?t = "Buffer_toString (concat chunks)"
  have b0: "NL \<notin> set (buffer streamState0)"
    by (simp add: streamState0_def)
  have one: "feed JSON_parse ToString Buffer_toString chunks (streamState0, []) =
      data_step JSON_parse ToString Buffer_toString (concat chunks) (streamState0, [])"
    using b0 assms by (rule feed_one_chunk)
  have whole: "data_step JSON_parse ToString Buffer_toString (concat chunks) (streamState0, []) =
     (case run_lines JSON_parse ToString (fst (split_lines ?t)) (streamState0, []) of
        (st', out') \<Rightarrow> (st'\<lparr>buffer := snd (split_lines ?t)\<rparr>, out'))"
    by (simp add: data_step_lines streamState0_def)
  show ?thesis
    unfolding one whole
    by (simp add: split_lines_rest split: prod.splits)
qed

text \<open>
  A stream of complete lines: every line is followed by its newline.  \<open>deltas\<close> are
  the fragments posted to the webview as \<^verbatim>\<open>streamChunk\<close>, in order.
\<close>

definition stream_text :: "string list \<Rightarrow> string" where
  "stream_text ls = concat (map (\<lambda>l. l @ [NL]) ls)"

fun deltas :: "effect list \<Rightarrow> json list" where
  "deltas [] = []"
| "deltas (PostMessage (StreamChunk v) # es) = v # deltas es"
| "deltas (e # es) = deltas es"

lemma deltas_append: "deltas (xs @ ys) = deltas xs @ deltas ys"
  by (induction xs rule: deltas.induct) auto

lemma split_lines_stream_text:
  "\<forall>l \<in> set ls. NL \<notin> set l \<Longrightarrow> split_lines (stream_text ls) = (ls, [])"
proof (induction ls)
  case Nil
  show ?case by (simp add: stream_text_def)
next
  case (Cons l ls)
  then have l: "NL \<notin> set l" and ih: "split_lines (stream_text ls) = (ls, [])"
    by simp_all
  have "stream_text (l # ls) = l @ NL # stream_text ls"
    by (simp add: stream_text_def)
  with split_lines_line [OF l, of "stream_text ls"] ih show ?case
    by simp
qed

lemma process_line_out:
  "process_line P T line (st, out) =
     (fst (process_line P T line (st, [])), out @ snd (process_line P T line (st, [])))"
  by (simp add: process_line_def split: option.splits sum.splits)

lemma run_lines_out:
  "run_lines P T ls (st, out) =
     (fst (run_lines P T ls (st, [])), out @ snd (run_lines P T ls (st, [])))"
proof (induction ls arbitrary: st out)
  case Nil
  show ?case by (simp add: run_lines_def)
next
  case (Cons l ls)
  let ?p = "process_line P T (trim l) (st, [])"
  let ?q = "run_lines P T ls (fst ?p, [])"
  have "run_lines P T (l # ls) (st, out) = run_lines P T ls (process_line P T (trim l) (st, out))"
    by (simp add: run_lines_def)
  also have "process_line P T (trim l) (st, out) = (fst ?p, out @ snd ?p)"
    by (rule process_line_out)
  also have "run_lines P T ls (fst ?p, out @ snd ?p) = (fst ?q, (out @ snd ?p) @ snd ?q)"
    by (rule Cons.IH)
  finally have a: "run_lines P T (l # ls) (st, out) = (fst ?q, out @ snd ?p @ snd ?q)"
    by simp
  have "run_lines P T (l # ls) (st, []) = run_lines P T ls (fst ?p, snd ?p)"
    by (simp add: run_lines_def)
  also have "\<dots> = (fst ?q, snd ?p @ snd ?q)"
    by (rule Cons.IH)
  finally have b: "run_lines P T (l # ls) (st, []) = (fst ?q, snd ?p @ snd ?q)" .
  show ?case
    unfolding a b by simp
qed

lemma feed_stream_text:
  assumes "\<forall>l \<in> set ls. NL \<notin> set l" and "concat (map D chunks) = stream_text ls"
    and "buffer st = []"
  shows "feed P T D chunks (st, out) = run_lines P T ls (st, out)"
proof -
  have "feed P T D chunks (st, out) =
      (case run_lines P T ls (st, out) of (st', out') \<Rightarrow> (st'\<lparr>buffer := []\<rparr>, out'))"
    using assms(2,3) by (simp add: feed_lines split_lines_stream_text [OF assms(1)])
  also have "\<dots> = run_lines P T ls (st\<lparr>buffer := []\<rparr>, out)"
    by (simp add: run_lines_buffer_update)
  also have "st\<lparr>buffer := []\<rparr> = st"
    using assms(3) by simp
  finally show ?thesis .
qed

lemma run_lines_buffer:
  "buffer (fst (run_lines P T ls (st, out))) = buffer st"
proof -
  have "run_lines P T ls (st\<lparr>buffer := buffer st\<rparr>, out) =
      (case run_lines P T ls (st, out) of (st', out') \<Rightarrow> (st'\<lparr>buffer := buffer st\<rparr>, out'))"
    by (rule run_lines_buffer_update)
  then show ?thesis
    by (simp add: case_prod_unfold) (metis fst_conv stream_state.select_convs(2)
        stream_state.surjective stream_state.update_convs(2))
qed

lemma process_line_malformed:
  "line \<noteq> [] \<Longrightarrow> P line = None \<Longrightarrow> process_line P T line (st, out) = (st, out @ [ConsoleError])"
  by (simp add: process_line_def)

text \<open>
  The values of \<^verbatim>\<open>JSON.parse\<close> on the lines of the examples below; on every other
  line used there it throws.  \<open>cafe_line\<close> is the line \<^verbatim>\<open>{"response":"caf\<close>\<open>U+00E9\<close>\<^verbatim>\<open>"}\<close>
  and \<open>cafe_cut_line\<close> the same line with \<open>U+FFFD U+FFFD\<close> for its last letter.
\<close>

definition cafe_line :: string where
  "cafe_line = ''{\"response\":\"caf'' @ [CHR 0xC3, CHR 0xA9] @ ''\"}''"

definition cafe_cut_line :: string where
  "cafe_cut_line =
     ''{\"response\":\"caf'' @ [CHR 0xEF, CHR 0xBF, CHR 0xBD, CHR 0xEF, CHR 0xBF, CHR 0xBD] @ ''\"}''"

definition sample_parse :: "string \<Rightarrow> json option" where
  "sample_parse l =
     (if l = ''{\"response\":\"Hel\"}''
      then Some (JObj [(''response'', JStr ''Hel''), (''done'', JBool False)])
      else if l = ''{\"response\":\"lo\"}''
      then Some (JObj [(''response'', JStr ''lo''), (''done'', JBool True)])
      else if l = ''{\"choices\":[{\"delta\":{\"content\":\"Hi\"}}]}''
      then Some (JObj [(''choices'', JArr [JObj [(''delta'', JObj [(''content'', JStr ''Hi'')])]])])
      else if l = cafe_line
      then Some (JObj [(''response'', JStr (''caf'' @ [CHR 0xC3, CHR 0xA9]))])
      else if l = cafe_cut_line
      then Some (JObj [(''response'',
             JStr (''caf'' @ [CHR 0xEF, CHR 0xBF, CHR 0xBD, CHR 0xEF, CHR 0xBF, CHR 0xBD]))])
      else None)"

text \<open>
  The values of \<^verbatim>\<open>Buffer.prototype.toString\<close> on the buffers of the examples below.
  A buffer that ends with the first byte \<open>C3\<close> of a two-byte character decodes with
  \<open>U+FFFD\<close> for that byte, and so does a buffer that starts with the second byte \<open>A9\<close>;
  every other buffer used below is well-formed and decodes to the text it encodes.
\<close>

definition sample_toString :: "bytes \<Rightarrow> string" where
  "sample_toString b =
     (if b = ''{\"response\":\"caf'' @ [CHR 0xC3]
      then ''{\"response\":\"caf'' @ [CHR 0xEF, CHR 0xBF, CHR 0xBD]
      else if b = [CHR 0xA9] @ ''\"}'' @ [NL]
      then [CHR 0xEF, CHR 0xBF, CHR 0xBD] @ ''\"}'' @ [NL]
      else b)"

text \<open>
  C1 at a failing input: the bytes of the line \<open>cafe_line\<close> and its newline, cut between
  the two bytes of \<open>U+00E9\<close>.  Fed as one chunk, the decoder emits the fragment
  \<open>caf\<close>\<open>U+00E9\<close>; fed as the two chunks, each decoded on its own, it emits
  \<open>caf\<close>\<open>U+FFFD U+FFFD\<close>.
\<close>

theorem C1_split_inside_character:
  "feed sample_parse (\<lambda>v. []) sample_toString [cafe_line @ [NL]] (streamState0, []) =
     (\<lparr>fullResponse = ''caf'' @ [CHR 0xC3, CHR 0xA9], buffer = []\<rparr>,
      [PostMessage (StreamChunk (JStr (''caf'' @ [CHR 0xC3, CHR 0xA9])))])
   \<and> feed sample_parse (\<lambda>v. []) sample_toString
       [''{\"response\":\"caf'' @ [CHR 0xC3], [CHR 0xA9] @ ''\"}'' @ [NL]] (streamState0, []) =
     (\<lparr>fullResponse = ''caf'' @ [CHR 0xEF, CHR 0xBF, CHR 0xBD, CHR 0xEF, CHR 0xBF, CHR 0xBD],
       buffer = []\<rparr>,
      [PostMessage (StreamChunk
         (JStr (''caf'' @ [CHR 0xEF, CHR 0xBF, CHR 0xBD, CHR 0xEF, CHR 0xBF, CHR 0xBD])))])
   \<and> concat [''{\"response\":\"caf'' @ [CHR 0xC3], [CHR 0xA9] @ ''\"}'' @ [NL]] = cafe_line @ [NL]"
  by code_simp

text \<open>
  C5. A stream of lines in which one non-empty line \<open>bad\<close> does not parse, arriving in
  any chunks that decode to it: the decoder does not stop; it logs one error for that
  line, and the state and the messages are those of the same stream without the line,
  the messages of the lines before it followed by those of the lines after it.
\<close>

theorem C5_malformed_line_skipped:
  assumes lines: "\<forall>l \<in> set (pre @ bad # post). NL \<notin> set l"
    and nonempty: "trim bad \<noteq> []"
    and malformed: "JSON_parse (trim bad) = None"
    and chunks: "concat (map Buffer_toString chunks) = stream_text (pre @ bad # post)"
    and chunks_pre: "concat (map Buffer_toString before) = stream_text pre"
    and chunks_post: "concat (map Buffer_toString after) = stream_text post"
    and chunks_without: "concat (map Buffer_toString without) = stream_text (pre @ post)"
  shows "\<exists>st1 out1 st2 out2.
      feed JSON_parse ToString Buffer_toString before (streamState0, []) = (st1, out1)
    \<and> feed JSON_parse ToString Buffer_toString after (st1, []) = (st2, out2)
    \<and> feed JSON_parse ToString Buffer_toString chunks (streamState0, []) =
        (st2, out1 @ ConsoleError # out2)
    \<and> feed JSON_parse ToString Buffer_toString without (streamState0, []) = (st2, out1 @ out2)
    \<and> deltas (out1 @ ConsoleError # out2) = deltas (out1 @ out2)"
proof -
  let ?P = JSON_parse and ?T = ToString and ?D = Buffer_toString
  obtain st1 out1 where r1: "run_lines ?P ?T pre (streamState0, []) = (st1, out1)"
    by (cases "run_lines ?P ?T pre (streamState0, [])")
  obtain st2 out2 where r2: "run_lines ?P ?T post (st1, []) = (st2, out2)"
    by (cases "run_lines ?P ?T post (st1, [])")
  have pre: "\<forall>l \<in> set pre. NL \<notin> set l" and post: "\<forall>l \<in> set post. NL \<notin> set l"
    and both: "\<forall>l \<in> set (pre @ post). NL \<notin> set l"
    using lines by auto
  have e0: "buffer streamState0 = []"
    by (simp add: streamState0_def)
  have b1: "buffer st1 = []"
    using run_lines_buffer [of ?P ?T pre streamState0 "[]"] r1 e0 by simp
  have f1: "feed ?P ?T ?D before (streamState0, []) = (st1, out1)"
    using feed_stream_text [OF pre chunks_pre e0, of ?P ?T "[]"] r1 by simp
  have f2: "feed ?P ?T ?D after (st1, []) = (st2, out2)"
    using feed_stream_text [OF post chunks_post b1, of ?P ?T "[]"] r2 by simp
  have f3: "feed ?P ?T ?D chunks (streamState0, []) = (st2, out1 @ ConsoleError # out2)"
  proof -
    have "feed ?P ?T ?D chunks (streamState0, []) =
        run_lines ?P ?T (pre @ bad # post) (streamState0, [])"
      by (rule feed_stream_text [OF lines chunks e0])
    also have "\<dots> = run_lines ?P ?T post (process_line ?P ?T (trim bad) (st1, out1))"
      by (simp add: run_lines_append r1) (simp add: run_lines_def)
    also have "\<dots> = run_lines ?P ?T post (st1, out1 @ [ConsoleError])"
      using nonempty malformed by (simp add: process_line_malformed)
    also have "\<dots> = (st2, (out1 @ [ConsoleError]) @ out2)"
      by (subst run_lines_out) (simp add: r2)
    finally show ?thesis by simp
  qed
  have f4: "feed ?P ?T ?D without (streamState0, []) = (st2, out1 @ out2)"
  proof -
    have "feed ?P ?T ?D without (streamState0, []) = run_lines ?P ?T (pre @ post) (streamState0, [])"
      by (rule feed_stream_text [OF both chunks_without e0])
    also have "\<dots> = run_lines ?P ?T post (st1, out1)"
      by (simp add: run_lines_append r1)
    also have "\<dots> = (st2, out1 @ out2)"
      by (subst run_lines_out) (simp add: r2)
    finally show ?thesis .
  qed
  have f5: "deltas (out1 @ ConsoleError # out2) = deltas (out1 @ out2)"
    by (simp add: deltas_append)
  from f1 f2 f3 f4 f5 show ?thesis by blast
qed

theorem C5_malformed_line_skipped_witness:
  "feed sample_parse (\<lambda>v. []) sample_toString
     [''{\"response\":\"Hel\"}\<newline>{oo'', ''ps\<newline>  {\"response\":\"lo\"}\<newline>'']
     (streamState0, []) =
   (\<lparr>fullResponse = ''Hello'', buffer = []\<rparr>,
    [PostMessage (StreamChunk (JStr ''Hel'')), ConsoleError,
     PostMessage (StreamChunk (JStr ''lo''))])"
proof -
  let ?pre = "[''{\"response\":\"Hel\"}'']"
  let ?bad = "''{oops''"
  let ?post = "[''  {\"response\":\"lo\"}'']"
  let ?chunks = "[''{\"response\":\"Hel\"}\<newline>{oo'', ''ps\<newline>  {\"response\":\"lo\"}\<newline>'']"
  let ?before = "[''{\"response\":\"Hel\"}\<newline>'']"
  let ?after = "[''  {\"response\":\"lo\"}\<newline>'']"
  let ?without = "[''{\"response\":\"Hel\"}\<newline>  {\"response\":\"lo\"}\<newline>'']"
  have h1: "\<forall>l \<in> set (?pre @ ?bad # ?post). NL \<notin> set l"
    by simp
  have h2: "trim ?bad \<noteq> []"
    by code_simp
  have h3: "sample_parse (trim ?bad) = None"
    by code_simp
  have h4: "concat (map sample_toString ?chunks) = stream_text (?pre @ ?bad # ?post)"
    by code_simp
  have h5: "concat (map sample_toString ?before) = stream_text ?pre"
    by code_simp
  have h6: "concat (map sample_toString ?after) = stream_text ?post"
    by code_simp
  have h7: "concat (map sample_toString ?without) = stream_text (?pre @ ?post)"
    by code_simp
  have e1: "feed sample_parse (\<lambda>v. []) sample_toString ?before (streamState0, []) =
      (\<lparr>fullResponse = ''Hel'', buffer = []\<rparr>, [PostMessage (StreamChunk (JStr ''Hel''))])"
    by code_simp
  have e2: "feed sample_parse (\<lambda>v. []) sample_toString ?after
        (\<lparr>fullResponse = ''Hel'', buffer = []\<rparr>, []) =
      (\<lparr>fullResponse = ''Hello'', buffer = []\<rparr>, [PostMessage (StreamChunk (JStr ''lo''))])"
    by code_simp
  from C5_malformed_line_skipped [where pre = ?pre and bad = ?bad and post = ?post
      and JSON_parse = sample_parse and ToString = "\<lambda>v. []" and Buffer_toString = sample_toString
      and chunks = ?chunks and before = ?before and after = ?after and without = ?without,
      OF h1 h2 h3 h4 h5 h6 h7]
  obtain st1 out1 st2 out2 where
    "feed sample_parse (\<lambda>v. []) sample_toString ?before (streamState0, []) = (st1, out1)"
    "feed sample_parse (\<lambda>v. []) sample_toString ?after (st1, []) = (st2, out2)"
    "feed sample_parse (\<lambda>v. []) sample_toString ?chunks (streamState0, []) =
       (st2, out1 @ ConsoleError # out2)"
    by blast
  with e1 e2 show ?thesis
    by simp
qed

section \<open>The self-hosted request: \<^verbatim>\<open>handleStreamingRequest\<close>\<close>

text \<open>
  A promise is pending until its first \<^verbatim>\<open>resolve\<close> or \<^verbatim>\<open>reject\<close>; later calls
  are ignored.  A rejection carries the value it was rejected with: an error object, or
  the bare string of \<^verbatim>\<open>reject(error.message)\<close>.
\<close>

datatype outcome = Pending | Resolved string | Rejected js_error

definition settle :: "outcome \<Rightarrow> outcome \<Rightarrow> outcome" where
  "settle new old = (if old = Pending then new else old)"

record turn =
  role :: string
  content :: string

text \<open>
  The state the handlers of one request share: the closure's \<^verbatim>\<open>streamState\<close>, the
  \<^verbatim>\<open>aborted\<close> flag of its \<^verbatim>\<open>abortSignal\<close>, the promise it returned, the global
  \<^verbatim>\<open>conversationHistory\<close>, and what has been posted to the webview and logged.
\<close>

record streaming =
  streamState :: stream_state
  aborted :: bool
  promise :: outcome
  history :: "turn list"
  posted :: "effect list"

text \<open>
  What happens to a request once its response is open: the events of the response
  stream (a chunk of data, a \<^verbatim>\<open>Buffer\<close>; the end; an error with its message), and
  \<open>Abort\<close>: \<^verbatim>\<open>abort()\<close> is called on the request's controller.
\<close>

datatype stream_event = Data bytes | End | StreamError string | Abort

definition finalizeStream :: "bool \<Rightarrow> streaming \<Rightarrow> streaming" where
  "finalizeStream useMultiRound r =
     r\<lparr>history :=
         (if useMultiRound
          then history r @ [\<lparr>role = ''assistant'', content = fullResponse (streamState r)\<rparr>]
          else history r),
       posted := posted r @ [PostMessage StreamComplete],
       promise := settle (Resolved (fullResponse (streamState r))) (promise r)\<rparr>"

definition on_data ::
  "(string \<Rightarrow> json option) \<Rightarrow> (json \<Rightarrow> string) \<Rightarrow> (bytes \<Rightarrow> string) \<Rightarrow> bytes \<Rightarrow>
   streaming \<Rightarrow> streaming" where
  "on_data JSON_parse ToString Buffer_toString chunk r =
     (if aborted r then r
      else (case data_step JSON_parse ToString Buffer_toString chunk (streamState r, posted r) of
              (st, out) \<Rightarrow> r\<lparr>streamState := st, posted := out\<rparr>))"

definition on_end :: "bool \<Rightarrow> streaming \<Rightarrow> streaming" where
  "on_end useMultiRound r = (if aborted r then r else finalizeStream useMultiRound r)"

definition on_error :: "string \<Rightarrow> streaming \<Rightarrow> streaming" where
  "on_error message r = r\<lparr>promise := settle (Rejected (StringValue message)) (promise r)\<rparr>"

text \<open>
  \<^verbatim>\<open>abort()\<close> sets the signal's flag and runs the listeners of its \<^verbatim>\<open>abort\<close> event
  in the order they were registered; the signal raises the event once.  The signal was
  given to \<^verbatim>\<open>axios.post\<close> (\<^verbatim>\<open>signal: abortSignal\<close>), whose listener was registered
  first: it emits \<^verbatim>\<open>error\<close> on the response stream with the library's cancellation
  error, message \<open>canceled\<close>, and destroys the stream; the handler of \<^verbatim>\<open>error\<close> has
  no abort test and rejects the promise with that message.  Then the two listeners of
  \<^verbatim>\<open>handleStreamingRequest\<close> run: the first destroys the stream and posts
  \<^verbatim>\<open>streamComplete\<close>; the second does the same and rejects the promise with
  \<open>Request aborted\<close>.  (After the end or an error of the stream the library emits
  nothing; the promise is settled by then and the handler of \<^verbatim>\<open>error\<close> would change
  nothing.)
\<close>

definition on_abort :: "streaming \<Rightarrow> streaming" where
  "on_abort r =
     (if aborted r then r
      else (let r1 = on_error ''canceled'' (r\<lparr>aborted := True\<rparr>)
            in r1\<lparr>posted := posted r1 @ [PostMessage StreamComplete, PostMessage StreamComplete],
                  promise := settle (Rejected (Error ''Request aborted'')) (promise r1)\<rparr>))"

fun stream_step ::
  "(string \<Rightarrow> json option) \<Rightarrow> (json \<Rightarrow> string) \<Rightarrow> (bytes \<Rightarrow> string) \<Rightarrow> bool \<Rightarrow> streaming \<Rightarrow>
   stream_event \<Rightarrow> streaming" where
  "stream_step JSON_parse ToString Buffer_toString useMultiRound r (Data chunk) =
     on_data JSON_parse ToString Buffer_toString chunk r"
| "stream_step JSON_parse ToString Buffer_toString useMultiRound r End = on_end useMultiRound r"
| "stream_step JSON_parse ToString Buffer_toString useMultiRound r (StreamError message) =
     on_error message r"
| "stream_step JSON_parse ToString Buffer_toString useMultiRound r Abort = on_abort r"

definition run_stream ::
  "(string \<Rightarrow> json option) \<Rightarrow> (json \<Rightarrow> string) \<Rightarrow> (bytes \<Rightarrow> string) \<Rightarrow> bool \<Rightarrow>
   stream_event list \<Rightarrow> streaming \<Rightarrow> streaming" where
  "run_stream JSON_parse ToString Buffer_toString useMultiRound events r =
     foldl (stream_step JSON_parse ToString Buffer_toString useMultiRound) r events"

text \<open>
  The transport, seen from the server's side: the request fails (the awaited
  \<^verbatim>\<open>axios.post\<close> throws; this is also what an abort during the post does, with the
  library's cancellation error), or the server answers and the body arrives as events.
  \<open>axios_post\<close> is what the awaited call gives: when it was asked for
  \<^verbatim>\<open>responseType: "stream"\<close>, \<^verbatim>\<open>response.data\<close> is the stream that delivers these
  events; otherwise the library reads the body itself and \<^verbatim>\<open>response.data\<close> is the body
  read, which is no stream.
\<close>

datatype transport = PostFailed js_error | PostOk "stream_event list"

datatype response_data = StreamData "stream_event list" | BufferedData

definition axios_post :: "bool \<Rightarrow> transport \<Rightarrow> js_error + response_data" where
  "axios_post stream_requested net =
     (case net of
        PostFailed e \<Rightarrow> Inl e
      | PostOk events \<Rightarrow> Inr (if stream_requested then StreamData events else BufferedData))"

text \<open>
  \<^verbatim>\<open>handleStreamingRequest\<close> asks for a stream.  Once the post has returned it registers
  its first abort listener, posts \<^verbatim>\<open>startResponse\<close> and registers the handlers of the
  stream; on data that is no stream, \<^verbatim>\<open>response.data.on\<close> is not a function and the
  call throws a TypeError inside the promise's executor, which rejects the promise.
\<close>

definition handleStreamingRequest ::
  "(string \<Rightarrow> json option) \<Rightarrow> (json \<Rightarrow> string) \<Rightarrow> (bytes \<Rightarrow> string) \<Rightarrow> bool \<Rightarrow> transport \<Rightarrow>
   turn list \<Rightarrow> streaming" where
  "handleStreamingRequest JSON_parse ToString Buffer_toString useMultiRound net hist =
     (case axios_post True net of
        Inl e \<Rightarrow>
          \<lparr>streamState = streamState0, aborted = False, promise = Rejected e,
           history = hist, posted = []\<rparr>
      | Inr BufferedData \<Rightarrow>
          \<lparr>streamState = streamState0, aborted = False, promise = Rejected TypeError,
           history = hist, posted = [PostMessage StartResponse]\<rparr>
      | Inr (StreamData events) \<Rightarrow>
          run_stream JSON_parse ToString Buffer_toString useMultiRound events
            \<lparr>streamState = streamState0, aborted = False, promise = Pending,
             history = hist, posted = [PostMessage StartResponse]\<rparr>)"

text \<open>
  \<^verbatim>\<open>handleError\<close>.  The engine's SyntaxError and TypeError carry a message of their
  own, never \<open>Request aborted\<close>; a bare string has no \<^verbatim>\<open>message\<close> property.
\<close>

fun handleError :: "js_error \<Rightarrow> string" where
  "handleError (AxiosError status message) =
     (if status = Some 401 then ''Authentication failed. Check your API key.''
      else if status = Some 404 then ''Invalid API endpoint. Check your configuration.''
      else message)"
| "handleError (Error message) =
     (if message = ''Request aborted'' then ''Generation stopped.''
      else ''Failed to get response. Check error logs for details.'')"
| "handleError e = ''Failed to get response. Check error logs for details.''"

text \<open>Once the signal is aborted and the promise settled, no event changes anything.\<close>

lemma stream_step_after_abort:
  "aborted r \<Longrightarrow> promise r \<noteq> Pending \<Longrightarrow> stream_step P T D mr r ev = r"
  by (cases ev) (simp_all add: on_data_def on_end_def on_error_def on_abort_def settle_def)

lemma run_stream_after_abort:
  "aborted r \<Longrightarrow> promise r \<noteq> Pending \<Longrightarrow> run_stream P T D mr evs r = r"
  unfolding run_stream_def
  by (induction evs) (simp_all add: stream_step_after_abort)

lemma on_abort_settles:
  "\<not> aborted r \<Longrightarrow> aborted (on_abort r) \<and> promise (on_abort r) \<noteq> Pending"
  by (simp add: on_abort_def on_error_def settle_def Let_def)

lemma events_after_abort_ignored:
  "\<not> aborted r \<Longrightarrow> run_stream P T D mr (Abort # evs) r = on_abort r"
  using run_stream_after_abort [of "on_abort r" P T D mr evs] on_abort_settles [of r]
  by (simp add: run_stream_def)

text \<open>
  C7 at a failing input: a self-hosted stream that has delivered one fragment when the
  request is aborted, and goes on to deliver another and to end.  No fragment is posted
  after the abort and no turn is appended, but the promise is rejected with the bare
  string \<open>canceled\<close> of the unguarded error handler, not with the \<open>Request aborted\<close>
  error of the abort listener, and \<^verbatim>\<open>handleError\<close> does not give \<open>Generation stopped.\<close>
  for it.  When the abort falls in the awaited post, the post fails with the library's
  cancellation error, no listener has been registered, and neither
  \<^verbatim>\<open>streamComplete\<close> nor anything else is posted.
\<close>

theorem C7_abort_outcome:
  "handleStreamingRequest sample_parse (\<lambda>v. []) sample_toString True
     (PostOk [Data ''{\"response\":\"Hel\"}\<newline>'', Abort,
              Data ''{\"response\":\"lo\"}\<newline>'', End]) [] =
   \<lparr>streamState = \<lparr>fullResponse = ''Hel'', buffer = []\<rparr>, aborted = True,
    promise = Rejected (StringValue ''canceled''), history = [],
    posted = [PostMessage StartResponse, PostMessage (StreamChunk (JStr ''Hel'')),
              PostMessage StreamComplete, PostMessage StreamComplete]\<rparr>
   \<and> handleError (StringValue ''canceled'') =
        ''Failed to get response. Check error logs for details.''
   \<and> handleError (Error ''Request aborted'') = ''Generation stopped.''
   \<and> handleStreamingRequest sample_parse (\<lambda>v. []) sample_toString True
        (PostFailed (AxiosError None ''canceled'')) [] =
      \<lparr>streamState = streamState0, aborted = False,
       promise = Rejected (AxiosError None ''canceled''), history = [], posted = []\<rparr>"
  by code_simp

section \<open>The cloud stream: \<^verbatim>\<open>handleCloudStream\<close>\<close>

text \<open>\<^verbatim>\<open>chunk.toString().split("\n")\<close>: the pieces between the newlines, at least one.\<close>

fun split_newline :: "string \<Rightarrow> string list" where
  "split_newline [] = [[]]"
| "split_newline (c # cs) =
     (if c = NL then [] # split_newline cs
      else (case split_newline cs of [] \<Rightarrow> [[c]] | l # ls \<Rightarrow> (c # l) # ls))"

text \<open>\<^verbatim>\<open>data.choices[0].delta.content\<close>; each read may throw.\<close>

definition delta_content :: "json \<Rightarrow> js_error + jsval" where
  "delta_content data =
     (case getProp (Some data) ''choices'' of
        Inl e \<Rightarrow> Inl e
      | Inr choices \<Rightarrow>
          (case getProp choices ''0'' of
             Inl e \<Rightarrow> Inl e
           | Inr choice \<Rightarrow>
               (case getProp choice ''delta'' of
                  Inl e \<Rightarrow> Inl e
                | Inr delta \<Rightarrow> getProp delta ''content'')))"

text \<open>
  The body of the loop over the lines of a chunk, on the accumulated response and the
  messages posted so far; \<open>Inl\<close> when it throws.
\<close>

definition cloud_line ::
  "(string \<Rightarrow> json option) \<Rightarrow> (json \<Rightarrow> string) \<Rightarrow> string \<Rightarrow>
   string \<times> effect list \<Rightarrow> js_error + string \<times> effect list" where
  "cloud_line JSON_parse ToString line = (\<lambda>(full, out).
     if prefix ''data: '' line then
       (case JSON_parse (drop 6 line) of
          None \<Rightarrow> Inl SyntaxError
        | Some data \<Rightarrow>
            (case delta_content data of
               Inl e \<Rightarrow> Inl e
             | Inr None \<Rightarrow> Inr (full, out)
             | Inr (Some c) \<Rightarrow>
                 if truthy (Some c)
                 then Inr (concat_value ToString full c, out @ [PostMessage (StreamChunk c)])
                 else Inr (full, out)))
     else Inr (full, out))"

fun cloud_lines ::
  "(string \<Rightarrow> json option) \<Rightarrow> (json \<Rightarrow> string) \<Rightarrow> string list \<Rightarrow>
   string \<times> effect list \<Rightarrow> (string \<times> effect list) \<times> js_error option" where
  "cloud_lines JSON_parse ToString [] acc = (acc, None)"
| "cloud_lines JSON_parse ToString (line # lines) acc =
     (case cloud_line JSON_parse ToString line acc of
        Inl e \<Rightarrow> (acc, Some e)
      | Inr acc' \<Rightarrow> cloud_lines JSON_parse ToString lines acc')"

record cloud_stream =
  cloud_fullResponse :: string
  cloud_promise :: outcome
  cloud_posted :: "effect list"

text \<open>
  The data handler: the chunk is decoded on its own and split into lines; the whole loop
  is inside one \<^verbatim>\<open>try\<close>, whose \<^verbatim>\<open>catch\<close> rejects the promise with what was
  thrown.
\<close>

definition cloud_on_data ::
  "(string \<Rightarrow> json option) \<Rightarrow> (json \<Rightarrow> string) \<Rightarrow> (bytes \<Rightarrow> string) \<Rightarrow> bytes \<Rightarrow>
   cloud_stream \<Rightarrow> cloud_stream" where
  "cloud_on_data JSON_parse ToString Buffer_toString chunk r =
     (case cloud_lines JSON_parse ToString (split_newline (Buffer_toString chunk))
             (cloud_fullResponse r, cloud_posted r) of
        ((full, out), thrown) \<Rightarrow>
          r\<lparr>cloud_fullResponse := full,
            cloud_promise :=
              (case thrown of
                 None \<Rightarrow> cloud_promise r
               | Some e \<Rightarrow> settle (Rejected e) (cloud_promise r)),
            cloud_posted := out\<rparr>)"

definition cloud_on_end :: "cloud_stream \<Rightarrow> cloud_stream" where
  "cloud_on_end r = r\<lparr>cloud_promise := settle (Resolved (cloud_fullResponse r)) (cloud_promise r)\<rparr>"

definition cloud_on_error :: "string \<Rightarrow> cloud_stream \<Rightarrow> cloud_stream" where
  "cloud_on_error message r = r\<lparr>cloud_promise := settle (Rejected (Error message)) (cloud_promise r)\<rparr>"

text \<open>No abort signal is passed to the cloud request, and no listener is registered.\<close>

fun cloud_step ::
  "(string \<Rightarrow> json option) \<Rightarrow> (json \<Rightarrow> string) \<Rightarrow> (bytes \<Rightarrow> string) \<Rightarrow> cloud_stream \<Rightarrow>
   stream_event \<Rightarrow> cloud_stream" where
  "cloud_step JSON_parse ToString Buffer_toString r (Data chunk) =
     cloud_on_data JSON_parse ToString Buffer_toString chunk r"
| "cloud_step JSON_parse ToString Buffer_toString r End = cloud_on_end r"
| "cloud_step JSON_parse ToString Buffer_toString r (StreamError message) = cloud_on_error message r"
| "cloud_step JSON_parse ToString Buffer_toString r Abort = r"

definition run_cloud ::
  "(string \<Rightarrow> json option) \<Rightarrow> (json \<Rightarrow> string) \<Rightarrow> (bytes \<Rightarrow> string) \<Rightarrow> stream_event list \<Rightarrow>
   cloud_stream \<Rightarrow> cloud_stream" where
  "run_cloud JSON_parse ToString Buffer_toString events r =
     foldl (cloud_step JSON_parse ToString Buffer_toString) r events"

text \<open>
  \<^verbatim>\<open>handleCloudStream\<close> registers the three handlers with \<^verbatim>\<open>response.data.on\<close>
  inside the promise's executor.  On data that is no stream the first call throws a
  TypeError and the promise is rejected with it; nothing is decoded.
\<close>

definition handleCloudStream ::
  "(string \<Rightarrow> json option) \<Rightarrow> (json \<Rightarrow> string) \<Rightarrow> (bytes \<Rightarrow> string) \<Rightarrow> response_data \<Rightarrow>
   cloud_stream" where
  "handleCloudStream JSON_parse ToString Buffer_toString response_data =
     (case response_data of
        BufferedData \<Rightarrow>
          \<lparr>cloud_fullResponse = [], cloud_promise = Rejected TypeError, cloud_posted = []\<rparr>
      | StreamData events \<Rightarrow>
          run_cloud JSON_parse ToString Buffer_toString events
            \<lparr>cloud_fullResponse = [], cloud_promise = Pending, cloud_posted = []\<rparr>)"

text \<open>
  \<^verbatim>\<open>handleCloudRequest\<close> posts with the headers only, without asking for a stream,
  awaits the post and \<^verbatim>\<open>handleCloudStream\<close>, and appends the assistant turn once that
  has resolved; a rejection of either is rethrown.  Every request body
  \<^verbatim>\<open>prepareRequest\<close> builds has \<^verbatim>\<open>stream: true\<close>, so only the streaming branch
  is modelled.  The result is the promise, the history and the messages posted.
\<close>

definition handleCloudRequest ::
  "(string \<Rightarrow> json option) \<Rightarrow> (json \<Rightarrow> string) \<Rightarrow> (bytes \<Rightarrow> string) \<Rightarrow> bool \<Rightarrow> transport \<Rightarrow>
   turn list \<Rightarrow> outcome \<times> turn list \<times> effect list" where
  "handleCloudRequest JSON_parse ToString Buffer_toString useMultiRound net hist =
     (case axios_post False net of
        Inl e \<Rightarrow> (Rejected e, hist, [])
      | Inr response_data \<Rightarrow>
          (let r = handleCloudStream JSON_parse ToString Buffer_toString response_data
           in (case cloud_promise r of
                 Resolved finalResponse \<Rightarrow>
                   (Resolved finalResponse,
                    (if useMultiRound
                     then hist @ [\<lparr>role = ''assistant'', content = finalResponse\<rparr>]
                     else hist),
                    cloud_posted r)
               | Rejected e \<Rightarrow> (Rejected e, hist, cloud_posted r)
               | Pending \<Rightarrow> (Pending, hist, cloud_posted r))))"

section \<open>Global state, request construction and \<^verbatim>\<open>sendToDeepSeek\<close>\<close>

text \<open>
  The module's globals.  An \<^verbatim>\<open>AbortController\<close> is the index of its \<^verbatim>\<open>aborted\<close>
  flag in \<open>controllers\<close>, which lists every controller created so far.  Aborting a
  controller sets its flag; what the listeners of the request holding its signal do
  then is the \<open>Abort\<close> event of that request.
\<close>

record globals =
  currentAbortController :: "nat option"
  controllers :: "bool list"
  conversationHistory :: "turn list"

definition globals0 :: globals where
  "globals0 = \<lparr>currentAbortController = None, controllers = [], conversationHistory = []\<rparr>"

definition controller_abort :: "nat \<Rightarrow> globals \<Rightarrow> globals" where
  "controller_abort c g = g\<lparr>controllers := (controllers g)[c := True]\<rparr>"

definition stopGeneratingResponse :: "globals \<Rightarrow> globals" where
  "stopGeneratingResponse g =
     (case currentAbortController g of
        None \<Rightarrow> g
      | Some c \<Rightarrow> (controller_abort c g)\<lparr>currentAbortController := None\<rparr>)"

definition resetConversation :: "globals \<Rightarrow> globals" where
  "resetConversation g = stopGeneratingResponse (g\<lparr>conversationHistory := []\<rparr>)"

text \<open>
  The settings read through \<^verbatim>\<open>config.get\<close>, with the types the manifest declares;
  \<open>None\<close> is \<^verbatim>\<open>undefined\<close>.  The temperature is a number, written as a rational.
\<close>

record config =
  accountType :: "string option"
  optionalCloudApiKey :: "string option"
  aiR1SelfHostedUrl :: "string option"
  aiR1Model :: "string option"
  aiR1ModelTemperature :: "rat option"
  MultiRoundConversationContext :: "bool option"

text \<open>\<^verbatim>\<open>value || fallback\<close> on a string setting.\<close>

definition or_default :: "string option \<Rightarrow> string \<Rightarrow> string" where
  "or_default v fallback = (case v of None \<Rightarrow> fallback | Some s \<Rightarrow> if s = [] then fallback else s)"

definition formatConversation :: "turn list \<Rightarrow> string" where
  "formatConversation hist =
     join_str [NL, NL]
       (map (\<lambda>msg. (if role msg = ''user'' then ''User'' else ''Assistant'') @ '': '' @ content msg)
          hist)"

text \<open>
  \<^verbatim>\<open>parseFloat(config.get("aiR1ModelTemperature") || "0.3")\<close>: an undefined setting and
  the number 0 give way to \<open>0.3\<close>; any other number is read back as itself.
\<close>

definition temperature_or_default :: "rat option \<Rightarrow> rat" where
  "temperature_or_default v =
     (case v of None \<Rightarrow> 3 / 10 | Some x \<Rightarrow> if x = 0 then 3 / 10 else x)"

text \<open>
  The request; an undefined API key is spliced into the header as the text
  \<open>undefined\<close>.
\<close>

datatype request_data =
    CloudData (model: string) (messages: "turn list") (temperature: rat) (stream: bool)
  | SelfHostedData (model: string) (prompt: string) (temperature: rat)
      (max_tokens: nat) (stream: bool)

record request_descriptor =
  url :: string
  headers :: "(string \<times> string) list"
  data :: request_data

definition prepareRequest :: "config \<Rightarrow> string \<Rightarrow> bool \<Rightarrow> turn list \<Rightarrow> request_descriptor" where
  "prepareRequest cfg message useMultiRound hist =
     (let account = or_default (accountType cfg) ''self-hosted'';
          apiKey = optionalCloudApiKey cfg;
          selfHostedUrl = or_default (aiR1SelfHostedUrl cfg) ''http://localhost:11434'';
          model = or_default (aiR1Model cfg) ''deepseek-r1:7b'';
          temperature = temperature_or_default (aiR1ModelTemperature cfg)
      in if account = ''cloud''
         then \<lparr>url = ''https://api.deepseek.com/v1/chat/completions'',
               headers = [(''Content-Type'', ''application/json''),
                          (''Authorization'',
                           ''Bearer '' @ (case apiKey of None \<Rightarrow> ''undefined'' | Some k \<Rightarrow> k))],
               data = CloudData ''deepseek-chat'' hist temperature True\<rparr>
         else \<lparr>url = selfHostedUrl @ ''/api/generate'',
               headers = [(''Content-Type'', ''application/json'')],
               data = SelfHostedData model
                        (if useMultiRound then formatConversation hist else message)
                        temperature 4096 True\<rparr>)"

record send_result =
  result_request :: request_descriptor
  result_promise :: outcome
  result_globals :: globals
  result_posted :: "effect list"

text \<open>
  \<^verbatim>\<open>sendToDeepSeek\<close>.  The statements of the \<^verbatim>\<open>try\<close> block run to the
  \<^verbatim>\<open>return\<close>.  What is returned there is the promise of
  \<^verbatim>\<open>handleStreamingRequest\<close> or \<^verbatim>\<open>handleCloudRequest\<close>, not awaited: the
  function's own promise takes the outcome of that promise, whose rejection happens
  after the \<^verbatim>\<open>try\<close> block has been left.  The \<^verbatim>\<open>catch\<close> clause
  (\<open>sendToDeepSeek_catch\<close>) is reached only by an exception thrown while the block
  runs; none of its statements throws.
  \<open>net\<close> is what the transport does with the request; the result has the promise at
  the end of these events.
\<close>

definition sendToDeepSeek_catch :: "js_error \<Rightarrow> globals \<Rightarrow> effect list \<Rightarrow> outcome \<times> globals \<times> effect list" where
  "sendToDeepSeek_catch e g out =
     (Resolved (handleError e),
      g\<lparr>currentAbortController := None\<rparr>,
      out @ [PostMessage (ErrorMsg (handleError e))])"

text \<open>
  The first statements of the \<^verbatim>\<open>try\<close> block: abort the stored controller if there
  is one, then create a controller and store it.
\<close>

definition renew_controller :: "globals \<Rightarrow> globals" where
  "renew_controller g =
     (let g1 = (case currentAbortController g of
                  None \<Rightarrow> g
                | Some c \<Rightarrow> controller_abort c g)
      in g1\<lparr>currentAbortController := Some (length (controllers g1)),
             controllers := controllers g1 @ [False]\<rparr>)"

definition push_user_turn :: "bool \<Rightarrow> string \<Rightarrow> globals \<Rightarrow> globals" where
  "push_user_turn useMultiRound message g =
     (if useMultiRound
      then g\<lparr>conversationHistory :=
               conversationHistory g @ [\<lparr>role = ''user'', content = message\<rparr>]\<rparr>
      else g)"

definition sendToDeepSeek ::
  "(string \<Rightarrow> json option) \<Rightarrow> (json \<Rightarrow> string) \<Rightarrow> (bytes \<Rightarrow> string) \<Rightarrow> config \<Rightarrow>
   transport \<Rightarrow> string \<Rightarrow> globals \<Rightarrow> send_result" where
  "sendToDeepSeek JSON_parse ToString Buffer_toString cfg net message g =
     (let g2 = renew_controller g;
          account = or_default (accountType cfg) ''self-hosted'';
          useMultiRound = (MultiRoundConversationContext cfg = Some True);
          g3 = push_user_turn useMultiRound message g2;
          req = prepareRequest cfg message useMultiRound (conversationHistory g3)
      in if account = ''self-hosted'' \<and> stream (data req)
         then (let r = handleStreamingRequest JSON_parse ToString Buffer_toString
                         useMultiRound net (conversationHistory g3)
               in \<lparr>result_request = req, result_promise = promise r,
                   result_globals = g3\<lparr>conversationHistory := history r\<rparr>,
                   result_posted = posted r\<rparr>)
         else (case handleCloudRequest JSON_parse ToString Buffer_toString useMultiRound net
                      (conversationHistory g3) of
                 (p, hist, out) \<Rightarrow>
                   \<lparr>result_request = req, result_promise = p,
                    result_globals = g3\<lparr>conversationHistory := hist\<rparr>,
                    result_posted = out\<rparr>))"

section \<open>Cancellation state\<close>

text \<open>
  The controllers that have not been aborted, and the invariant: every one of them is
  the stored \<^verbatim>\<open>currentAbortController\<close>, and the stored controller is one that has
  been created.
\<close>

definition live_controllers :: "globals \<Rightarrow> nat list" where
  "live_controllers g = filter (\<lambda>c. \<not> controllers g ! c) [0..<length (controllers g)]"

definition cancellation_inv :: "globals \<Rightarrow> bool" where
  "cancellation_inv g =
     ((\<forall>c \<in> set (live_controllers g). currentAbortController g = Some c) \<and>
      (case currentAbortController g of None \<Rightarrow> True | Some c \<Rightarrow> c < length (controllers g)))"

lemma live_controllers_iff:
  "c \<in> set (live_controllers g) \<longleftrightarrow> c < length (controllers g) \<and> \<not> controllers g ! c"
  by (auto simp: live_controllers_def)

lemma cancellation_inv_iff:
  "cancellation_inv g \<longleftrightarrow>
     (\<forall>c < length (controllers g). \<not> controllers g ! c \<longrightarrow> currentAbortController g = Some c) \<and>
     (\<forall>c. currentAbortController g = Some c \<longrightarrow> c < length (controllers g))"
  by (auto simp: cancellation_inv_def live_controllers_iff split: option.splits)

lemma all_same_distinct_short:
  "distinct xs \<Longrightarrow> \<forall>x \<in> set xs. x = c \<Longrightarrow> length xs \<le> Suc 0"
  by (cases xs; cases "tl xs") auto

lemma inv_at_most_one:
  assumes "cancellation_inv g"
  shows "length (live_controllers g) \<le> 1"
proof (cases "currentAbortController g")
  case None
  with assms have "set (live_controllers g) = {}"
    by (auto simp: cancellation_inv_def)
  then show ?thesis by simp
next
  case (Some c)
  with assms have "\<forall>x \<in> set (live_controllers g). x = c"
    by (auto simp: cancellation_inv_def)
  moreover have "distinct (live_controllers g)"
    by (simp add: live_controllers_def)
  ultimately show ?thesis
    using all_same_distinct_short by fastforce
qed

lemma abort_old_controllers:
  assumes "\<forall>c < length cs. \<not> cs ! c \<longrightarrow> cur = Some c" and "c < length cs"
  shows "(case cur of None \<Rightarrow> cs | Some k \<Rightarrow> cs[k := True]) ! c"
proof (cases cur)
  case None
  with assms show ?thesis by auto
next
  case (Some k)
  show ?thesis
  proof (cases "c = k")
    case True
    with Some assms(2) show ?thesis by simp
  next
    case False
    with Some assms show ?thesis by auto
  qed
qed

lemma length_abort_old:
  "length (case cur of None \<Rightarrow> cs | Some k \<Rightarrow> cs[k := True]) = length cs"
  by (cases cur) simp_all

lemma inv_live_is_current:
  "cancellation_inv g \<Longrightarrow> c < length (controllers g) \<Longrightarrow> \<not> controllers g ! c \<Longrightarrow>
   currentAbortController g = Some c"
  unfolding cancellation_inv_iff by blast

lemma inv_current_allocated:
  "cancellation_inv g \<Longrightarrow> currentAbortController g = Some c \<Longrightarrow> c < length (controllers g)"
  unfolding cancellation_inv_iff by blast

lemma inv_intro:
  assumes "\<And>c. c < length (controllers g) \<Longrightarrow> \<not> controllers g ! c \<Longrightarrow>
             currentAbortController g = Some c"
    and "\<And>c. currentAbortController g = Some c \<Longrightarrow> c < length (controllers g)"
  shows "cancellation_inv g"
  unfolding cancellation_inv_iff using assms by blast

lemma stop_inv:
  assumes "cancellation_inv g"
  shows "cancellation_inv (stopGeneratingResponse g)"
proof (cases "currentAbortController g")
  case None
  with assms show ?thesis
    by (simp add: stopGeneratingResponse_def)
next
  case (Some k)
  let ?g' = "g\<lparr>controllers := (controllers g)[k := True], currentAbortController := None\<rparr>"
  have eq: "stopGeneratingResponse g = ?g'"
    using Some by (simp add: stopGeneratingResponse_def controller_abort_def)
  have "cancellation_inv ?g'"
  proof (rule inv_intro)
    fix c
    assume c: "c < length (controllers ?g')" and live: "\<not> controllers ?g' ! c"
    from c have c': "c < length (controllers g)"
      by simp
    from live c' have "c \<noteq> k"
      by auto
    with live have "\<not> controllers g ! c"
      by simp
    with assms c' have "currentAbortController g = Some c"
      by (rule inv_live_is_current)
    with Some \<open>c \<noteq> k\<close> show "currentAbortController ?g' = Some c"
      by simp
  next
    fix c
    assume "currentAbortController ?g' = Some c"
    then show "c < length (controllers ?g')"
      by simp
  qed
  then show ?thesis
    by (simp only: eq)
qed

lemma cancellation_inv_cong:
  "controllers g' = controllers g \<Longrightarrow> currentAbortController g' = currentAbortController g \<Longrightarrow>
   cancellation_inv g' = cancellation_inv g"
  by (simp add: cancellation_inv_def live_controllers_def cong: option.case_cong)

lemma reset_inv: "cancellation_inv g \<Longrightarrow> cancellation_inv (resetConversation g)"
proof -
  assume "cancellation_inv g"
  moreover have "cancellation_inv (g\<lparr>conversationHistory := []\<rparr>) = cancellation_inv g"
    by (rule cancellation_inv_cong) simp_all
  ultimately have "cancellation_inv (g\<lparr>conversationHistory := []\<rparr>)"
    by simp
  then show ?thesis
    unfolding resetConversation_def by (rule stop_inv)
qed

lemma renew_controllers:
  "controllers (renew_controller g) =
     (case currentAbortController g of None \<Rightarrow> controllers g | Some c \<Rightarrow> (controllers g)[c := True])
       @ [False]"
  by (cases "currentAbortController g") (simp_all add: renew_controller_def controller_abort_def)

lemma renew_current:
  "currentAbortController (renew_controller g) = Some (length (controllers g))"
  by (cases "currentAbortController g") (simp_all add: renew_controller_def controller_abort_def)

lemma send_cancellation_state:
  "controllers (result_globals (sendToDeepSeek P T D cfg net message g)) =
     controllers (renew_controller g) \<and>
   currentAbortController (result_globals (sendToDeepSeek P T D cfg net message g)) =
     currentAbortController (renew_controller g)"
  by (simp add: sendToDeepSeek_def Let_def case_prod_unfold push_user_turn_def)

lemma send_controllers:
  "controllers (result_globals (sendToDeepSeek P T D cfg net message g)) =
     (case currentAbortController g of None \<Rightarrow> controllers g | Some c \<Rightarrow> (controllers g)[c := True])
       @ [False]"
  by (simp only: send_cancellation_state renew_controllers)

lemma send_current:
  "currentAbortController (result_globals (sendToDeepSeek P T D cfg net message g)) =
     Some (length (controllers g))"
  by (simp only: send_cancellation_state renew_current)

lemma send_old_aborted:
  assumes "cancellation_inv g" and c: "c < length (controllers g)"
  shows "controllers (result_globals (sendToDeepSeek P T D cfg net message g)) ! c"
proof -
  have "\<forall>c < length (controllers g). \<not> controllers g ! c \<longrightarrow> currentAbortController g = Some c"
    using assms(1) inv_live_is_current by blast
  then have "(case currentAbortController g of None \<Rightarrow> controllers g
         | Some k \<Rightarrow> (controllers g)[k := True]) ! c"
    using c by (rule abort_old_controllers)
  then show ?thesis
    using c by (simp add: send_controllers nth_append length_abort_old)
qed

lemma send_length:
  "length (controllers (result_globals (sendToDeepSeek P T D cfg net message g))) =
     Suc (length (controllers g))"
  by (simp add: send_controllers length_abort_old)

lemma send_inv:
  assumes "cancellation_inv g"
  shows "cancellation_inv (result_globals (sendToDeepSeek P T D cfg net message g))"
proof (rule inv_intro)
  let ?s = "result_globals (sendToDeepSeek P T D cfg net message g)"
  fix c
  assume c: "c < length (controllers ?s)" and live: "\<not> controllers ?s ! c"
  have "\<not> c < length (controllers g)"
    using send_old_aborted [OF assms, of c P T D cfg net message] live by blast
  with c have "c = length (controllers g)"
    by (simp add: send_length)
  then show "currentAbortController ?s = Some c"
    by (simp add: send_current)
next
  fix c
  assume "currentAbortController (result_globals (sendToDeepSeek P T D cfg net message g)) = Some c"
  then show "c < length (controllers (result_globals (sendToDeepSeek P T D cfg net message g)))"
    by (simp add: send_current send_length)
qed

text \<open>The settings as the extension's manifest declares their defaults.\<close>

definition default_config :: config where
  "default_config =
     \<lparr>accountType = Some ''self-hosted'', optionalCloudApiKey = Some ''Only for cloud option..'',
      aiR1SelfHostedUrl = Some ''http://localhost:11434'', aiR1Model = Some ''deepseek-r1:7b'',
      aiR1ModelTemperature = Some (3 / 10), MultiRoundConversationContext = Some True\<rparr>"

text \<open>
  C2. At most one controller that has not been aborted exists, and it is the stored one.
  This holds at start and is kept by \<^verbatim>\<open>sendToDeepSeek\<close>, which aborts the stored
  controller and stores a new one, by \<^verbatim>\<open>stopGeneratingResponse\<close>, which aborts and
  clears the stored controller and does nothing when there is none, and by
  \<^verbatim>\<open>resetConversation\<close>, which empties the history and stops in the same way.
\<close>

theorem C2_at_most_one_controller:
  assumes inv: "cancellation_inv g"
  shows "cancellation_inv globals0
    \<and> length (live_controllers g) \<le> 1
    \<and> cancellation_inv (result_globals (sendToDeepSeek JSON_parse ToString Buffer_toString cfg net message g))
    \<and> cancellation_inv (stopGeneratingResponse g)
    \<and> cancellation_inv (resetConversation g)
    \<and> currentAbortController (result_globals (sendToDeepSeek JSON_parse ToString Buffer_toString cfg net message g))
        = Some (length (controllers g))
    \<and> live_controllers (result_globals (sendToDeepSeek JSON_parse ToString Buffer_toString cfg net message g))
        = [length (controllers g)]
    \<and> (currentAbortController g = None \<longrightarrow> stopGeneratingResponse g = g)
    \<and> (\<forall>c. currentAbortController g = Some c \<longrightarrow>
          currentAbortController (stopGeneratingResponse g) = None
        \<and> controllers (stopGeneratingResponse g) = (controllers g)[c := True]
        \<and> live_controllers (stopGeneratingResponse g) = [])
    \<and> resetConversation g = (stopGeneratingResponse g)\<lparr>conversationHistory := []\<rparr>"
proof -
  let ?s = "result_globals (sendToDeepSeek JSON_parse ToString Buffer_toString cfg net message g)"
  have a: "cancellation_inv globals0"
    by (simp add: cancellation_inv_def globals0_def live_controllers_def)
  have b: "length (live_controllers g) \<le> 1"
    using inv by (rule inv_at_most_one)
  have c: "cancellation_inv ?s"
    using inv by (rule send_inv)
  have d: "cancellation_inv (stopGeneratingResponse g)"
    using inv by (rule stop_inv)
  have e: "cancellation_inv (resetConversation g)"
    using inv by (rule reset_inv)
  have f: "currentAbortController ?s = Some (length (controllers g))"
    by (rule send_current)
  have g: "live_controllers ?s = [length (controllers g)]"
  proof -
    have n: "length (controllers ?s) = Suc (length (controllers g))"
      by (rule send_length)
    have old: "\<forall>c < length (controllers g). controllers ?s ! c"
      using send_old_aborted [OF inv] by blast
    have new: "\<not> controllers ?s ! length (controllers g)"
      by (simp add: send_controllers nth_append length_abort_old)
    have "filter (\<lambda>c. \<not> controllers ?s ! c) [0..<length (controllers g)] = []"
      using old by (simp add: filter_empty_conv)
    then show ?thesis
      using new unfolding live_controllers_def n by simp
  qed
  have h: "currentAbortController g = None \<longrightarrow> stopGeneratingResponse g = g"
    by (simp add: stopGeneratingResponse_def)
  have i: "\<forall>c. currentAbortController g = Some c \<longrightarrow>
          currentAbortController (stopGeneratingResponse g) = None
        \<and> controllers (stopGeneratingResponse g) = (controllers g)[c := True]
        \<and> live_controllers (stopGeneratingResponse g) = []"
  proof (intro allI impI)
    fix c assume c: "currentAbortController g = Some c"
    have 1: "currentAbortController (stopGeneratingResponse g) = None"
      and 2: "controllers (stopGeneratingResponse g) = (controllers g)[c := True]"
      using c by (simp_all add: stopGeneratingResponse_def controller_abort_def)
    have "\<forall>x \<in> set (live_controllers (stopGeneratingResponse g)). False"
      using d unfolding cancellation_inv_def 1 by simp
    then have 3: "live_controllers (stopGeneratingResponse g) = []"
      by (cases "live_controllers (stopGeneratingResponse g)") auto
    from 1 2 3 show "currentAbortController (stopGeneratingResponse g) = None
        \<and> controllers (stopGeneratingResponse g) = (controllers g)[c := True]
        \<and> live_controllers (stopGeneratingResponse g) = []"
      by simp
  qed
  have j: "resetConversation g = (stopGeneratingResponse g)\<lparr>conversationHistory := []\<rparr>"
    by (simp add: resetConversation_def stopGeneratingResponse_def controller_abort_def
        split: option.splits)
  show ?thesis
    by (intro conjI a b c d e f g h i j)
qed

theorem C2_at_most_one_controller_witness:
  "cancellation_inv
     \<lparr>currentAbortController = Some 0, controllers = [False], conversationHistory = []\<rparr>
   \<and> live_controllers (result_globals (sendToDeepSeek sample_parse (\<lambda>v. []) sample_toString default_config
         (PostOk []) ''hi''
         \<lparr>currentAbortController = Some 0, controllers = [False], conversationHistory = []\<rparr>))
       = [1]
   \<and> live_controllers (stopGeneratingResponse
         \<lparr>currentAbortController = Some 0, controllers = [False], conversationHistory = []\<rparr>)
       = []"
proof -
  let ?g = "\<lparr>currentAbortController = Some 0, controllers = [False], conversationHistory = []\<rparr>"
  have h: "cancellation_inv ?g"
    by code_simp
  from C2_at_most_one_controller [OF h, of sample_parse "\<lambda>v. []" sample_toString default_config "PostOk []" "''hi''"]
  show ?thesis
    using h by simp
qed


section \<open>The flattened prompt\<close>

text \<open>
  The rendering of the turn sequence in the words of the design: one labelled block per
  turn, \<open>User: \<close> or \<open>Assistant: \<close> followed by the content, the blocks joined by
  a blank line.
\<close>

definition labelled_block :: "turn \<Rightarrow> string" where
  "labelled_block t = (if role t = ''user'' then ''User: '' else ''Assistant: '') @ content t"

fun flatten :: "turn list \<Rightarrow> string" where
  "flatten [] = []"
| "flatten [t] = labelled_block t"
| "flatten (t # u # ts) = labelled_block t @ [NL, NL] @ flatten (u # ts)"

lemma formatConversation_flatten: "formatConversation hist = flatten hist"
  by (induction hist rule: flatten.induct) (simp_all add: formatConversation_def labelled_block_def)

lemma renew_history: "conversationHistory (renew_controller g) = conversationHistory g"
  by (cases "currentAbortController g") (simp_all add: renew_controller_def controller_abort_def)

lemma send_request:
  "result_request (sendToDeepSeek P T D cfg net message g) =
     prepareRequest cfg message (MultiRoundConversationContext cfg = Some True)
       (conversationHistory
          (push_user_turn (MultiRoundConversationContext cfg = Some True) message g))"
  by (simp add: sendToDeepSeek_def Let_def case_prod_unfold push_user_turn_def renew_history)

lemma prepareRequest_prompt:
  "or_default (accountType cfg) ''self-hosted'' \<noteq> ''cloud'' \<Longrightarrow>
   data (prepareRequest cfg message useMultiRound hist) =
     SelfHostedData (or_default (aiR1Model cfg) ''deepseek-r1:7b'')
       (if useMultiRound then formatConversation hist else message)
       (temperature_or_default (aiR1ModelTemperature cfg)) 4096 True"
  by (simp add: prepareRequest_def Let_def)

text \<open>
  C4. A request that is not for the cloud account carries as its prompt the rendering of
  the history when the multi-round flag is on, and the message itself when it is off.
  In \<^verbatim>\<open>sendToDeepSeek\<close> the history rendered is the stored one followed by the new
  user turn.  \<^verbatim>\<open>formatConversation\<close> computes that rendering; it is a function of the
  history alone and returns only the string, so the history is left as it was.
\<close>

theorem C4_self_hosted_prompt:
  assumes "or_default (accountType cfg) ''self-hosted'' \<noteq> ''cloud''"
  shows "prompt (data (prepareRequest cfg message useMultiRound hist)) =
           (if useMultiRound then flatten hist else message)
    \<and> prompt (data (result_request (sendToDeepSeek JSON_parse ToString Buffer_toString cfg net message g))) =
           (if MultiRoundConversationContext cfg = Some True
            then flatten (conversationHistory g @ [\<lparr>role = ''user'', content = message\<rparr>])
            else message)
    \<and> formatConversation hist = flatten hist
    \<and> formatConversation [\<lparr>role = ''user'', content = ''hi''\<rparr>,
                           \<lparr>role = ''assistant'', content = ''hello''\<rparr>] =
        ''User: hi\<newline>\<newline>Assistant: hello''"
proof -
  have a: "prompt (data (prepareRequest cfg message useMultiRound hist)) =
      (if useMultiRound then flatten hist else message)"
    using assms by (simp add: prepareRequest_prompt formatConversation_flatten)
  have b: "prompt (data (result_request (sendToDeepSeek JSON_parse ToString Buffer_toString cfg net message g))) =
      (if MultiRoundConversationContext cfg = Some True
       then flatten (conversationHistory g @ [\<lparr>role = ''user'', content = message\<rparr>])
       else message)"
    using assms
    by (simp add: send_request prepareRequest_prompt formatConversation_flatten push_user_turn_def)
  have c: "formatConversation [\<lparr>role = ''user'', content = ''hi''\<rparr>,
                           \<lparr>role = ''assistant'', content = ''hello''\<rparr>] =
        ''User: hi\<newline>\<newline>Assistant: hello''"
    by (simp add: formatConversation_def)
  show ?thesis
    by (intro conjI a b c formatConversation_flatten)
qed

theorem C4_self_hosted_prompt_witness:
  "prompt (data (result_request (sendToDeepSeek sample_parse (\<lambda>v. []) sample_toString default_config (PostOk [])
      ''how are you''
      \<lparr>currentAbortController = Some 0, controllers = [False],
       conversationHistory = [\<lparr>role = ''user'', content = ''hi''\<rparr>,
                              \<lparr>role = ''assistant'', content = ''hello''\<rparr>]\<rparr>))) =
   ''User: hi\<newline>\<newline>Assistant: hello\<newline>\<newline>User: how are you''"
proof -
  have h: "or_default (accountType default_config) ''self-hosted'' \<noteq> ''cloud''"
    by (simp add: default_config_def or_default_def)
  have m: "MultiRoundConversationContext default_config = Some True"
    by (simp add: default_config_def)
  from C4_self_hosted_prompt [OF h, of "''how are you''" True "[]" sample_parse "\<lambda>v. []" sample_toString "PostOk []"
      "\<lparr>currentAbortController = Some 0, controllers = [False],
       conversationHistory = [\<lparr>role = ''user'', content = ''hi''\<rparr>,
                              \<lparr>role = ''assistant'', content = ''hello''\<rparr>]\<rparr>"]
  show ?thesis
    by (simp add: m labelled_block_def)
qed

section \<open>The history across a request\<close>

lemma stream_step_history:
  "prefix (history r) (history (stream_step P T D mr r ev))"
  by (cases ev)
    (simp_all add: on_data_def on_end_def on_error_def on_abort_def finalizeStream_def
      case_prod_unfold)

lemma run_stream_history:
  "prefix (history r) (history (run_stream P T D mr evs r))"
proof (induction evs arbitrary: r)
  case Nil
  show ?case by (simp add: run_stream_def)
next
  case (Cons ev evs)
  have "prefix (history r) (history (stream_step P T D mr r ev))"
    by (rule stream_step_history)
  also have "prefix \<dots> (history (run_stream P T D mr evs (stream_step P T D mr r ev)))"
    by (rule Cons.IH)
  finally show ?case
    by (simp add: run_stream_def)
qed

lemma stream_step_history_off:
  "history (stream_step P T D False r ev) = history r"
  by (cases ev)
    (simp_all add: on_data_def on_end_def on_error_def on_abort_def finalizeStream_def
      case_prod_unfold)

lemma run_stream_history_off:
  "history (run_stream P T D False evs r) = history r"
  unfolding run_stream_def
  by (induction evs arbitrary: r) (simp_all add: stream_step_history_off)

lemma handleStreamingRequest_history:
  "prefix hist (history (handleStreamingRequest P T D mr net hist))"
proof (cases net)
  case (PostFailed e)
  then show ?thesis by (simp add: handleStreamingRequest_def axios_post_def)
next
  case (PostOk evs)
  let ?r = "\<lparr>streamState = streamState0, aborted = False, promise = Pending,
             history = hist, posted = [PostMessage StartResponse]\<rparr>"
  have "prefix (history ?r) (history (run_stream P T D mr evs ?r))"
    by (rule run_stream_history)
  with PostOk show ?thesis by (simp add: handleStreamingRequest_def axios_post_def)
qed

lemma handleStreamingRequest_history_off:
  "history (handleStreamingRequest P T D False net hist) = hist"
  by (cases net) (simp_all add: handleStreamingRequest_def axios_post_def run_stream_history_off)

lemma handleCloudRequest_history:
  "prefix hist (fst (snd (handleCloudRequest P T D mr net hist)))"
  by (cases net) (simp_all add: handleCloudRequest_def axios_post_def Let_def split: outcome.splits)

lemma handleCloudRequest_history_off:
  "fst (snd (handleCloudRequest P T D False net hist)) = hist"
  by (cases net) (simp_all add: handleCloudRequest_def axios_post_def Let_def split: outcome.splits)

lemma send_history:
  "conversationHistory (result_globals (sendToDeepSeek P T D cfg net message g)) =
     (let mr = (MultiRoundConversationContext cfg = Some True);
          hist = conversationHistory (push_user_turn mr message g)
      in if or_default (accountType cfg) ''self-hosted'' = ''self-hosted'' \<and>
            stream (data (prepareRequest cfg message mr hist))
         then history (handleStreamingRequest P T D mr net hist)
         else fst (snd (handleCloudRequest P T D mr net hist)))"
  by (auto simp: sendToDeepSeek_def Let_def case_prod_unfold push_user_turn_def renew_history)

lemma send_failed:
  "result_promise (sendToDeepSeek P T D cfg (PostFailed e) message g) = Rejected e
   \<and> result_posted (sendToDeepSeek P T D cfg (PostFailed e) message g) = []
   \<and> conversationHistory (result_globals (sendToDeepSeek P T D cfg (PostFailed e) message g)) =
       conversationHistory (push_user_turn (MultiRoundConversationContext cfg = Some True) message g)"
  by (simp add: sendToDeepSeek_def Let_def push_user_turn_def renew_history
      handleStreamingRequest_def handleCloudRequest_def axios_post_def)

text \<open>
  C8, as stated, fails: with the multi-round flag off, \<^verbatim>\<open>sendToDeepSeek\<close> appends no
  user turn; after a complete exchange the history is still empty.
\<close>

theorem C8_user_turn_counterexample:
  "conversationHistory (result_globals
     (sendToDeepSeek sample_parse (\<lambda>v. []) sample_toString
        (default_config\<lparr>MultiRoundConversationContext := Some False\<rparr>)
        (PostOk [Data ''{\"response\":\"Hel\"}\<newline>'', End]) ''hi'' globals0)) = []"
  by code_simp

text \<open>
  C8, amended.  With the multi-round flag on, the user's turn is appended to the history
  before the request is built: the request is the one \<^verbatim>\<open>prepareRequest\<close> builds from
  the history with that turn, and the history afterwards starts with the old history
  followed by that turn, whatever the transport does; when the post fails the promise is
  rejected and the turn stays.  With the flag off nothing is appended.
\<close>

theorem C8_user_turn_appended_first:
  "(MultiRoundConversationContext cfg = Some True \<longrightarrow>
      result_request (sendToDeepSeek JSON_parse ToString Buffer_toString cfg net message g) =
        prepareRequest cfg message True
          (conversationHistory g @ [\<lparr>role = ''user'', content = message\<rparr>])
    \<and> prefix (conversationHistory g @ [\<lparr>role = ''user'', content = message\<rparr>])
        (conversationHistory
           (result_globals (sendToDeepSeek JSON_parse ToString Buffer_toString cfg net message g)))
    \<and> (\<forall>e. net = PostFailed e \<longrightarrow>
          result_promise (sendToDeepSeek JSON_parse ToString Buffer_toString cfg net message g) = Rejected e
        \<and> conversationHistory
            (result_globals (sendToDeepSeek JSON_parse ToString Buffer_toString cfg net message g)) =
            conversationHistory g @ [\<lparr>role = ''user'', content = message\<rparr>]))
   \<and> (MultiRoundConversationContext cfg \<noteq> Some True \<longrightarrow>
      result_request (sendToDeepSeek JSON_parse ToString Buffer_toString cfg net message g) =
        prepareRequest cfg message False (conversationHistory g)
    \<and> conversationHistory
        (result_globals (sendToDeepSeek JSON_parse ToString Buffer_toString cfg net message g)) =
        conversationHistory g)"
proof (intro conjI impI allI)
  assume on: "MultiRoundConversationContext cfg = Some True"
  show "result_request (sendToDeepSeek JSON_parse ToString Buffer_toString cfg net message g) =
        prepareRequest cfg message True
          (conversationHistory g @ [\<lparr>role = ''user'', content = message\<rparr>])"
    using on by (simp add: send_request push_user_turn_def)
  show "prefix (conversationHistory g @ [\<lparr>role = ''user'', content = message\<rparr>])
        (conversationHistory
           (result_globals (sendToDeepSeek JSON_parse ToString Buffer_toString cfg net message g)))"
    using on
    by (simp add: send_history Let_def push_user_turn_def handleStreamingRequest_history
        handleCloudRequest_history)
  fix e assume "net = PostFailed e"
  then show "result_promise (sendToDeepSeek JSON_parse ToString Buffer_toString cfg net message g) = Rejected e"
    and "conversationHistory
            (result_globals (sendToDeepSeek JSON_parse ToString Buffer_toString cfg net message g)) =
            conversationHistory g @ [\<lparr>role = ''user'', content = message\<rparr>]"
    using on send_failed [of JSON_parse ToString Buffer_toString cfg e message g]
    by (simp_all add: push_user_turn_def)
next
  assume off: "MultiRoundConversationContext cfg \<noteq> Some True"
  show "result_request (sendToDeepSeek JSON_parse ToString Buffer_toString cfg net message g) =
        prepareRequest cfg message False (conversationHistory g)"
    using off by (simp add: send_request push_user_turn_def)
  show "conversationHistory
        (result_globals (sendToDeepSeek JSON_parse ToString Buffer_toString cfg net message g)) =
        conversationHistory g"
    using off
    by (simp add: send_history Let_def push_user_turn_def handleStreamingRequest_history_off
        handleCloudRequest_history_off)
qed

theorem C8_user_turn_appended_first_witness:
  "result_promise (sendToDeepSeek sample_parse (\<lambda>v. []) sample_toString default_config
      (PostFailed (AxiosError None ''Network Error'')) ''hi'' globals0)
     = Rejected (AxiosError None ''Network Error'')
   \<and> conversationHistory (result_globals (sendToDeepSeek sample_parse (\<lambda>v. []) sample_toString default_config
      (PostFailed (AxiosError None ''Network Error'')) ''hi'' globals0))
     = [\<lparr>role = ''user'', content = ''hi''\<rparr>]"
proof -
  have m: "MultiRoundConversationContext default_config = Some True"
    by (simp add: default_config_def)
  from C8_user_turn_appended_first [of default_config sample_parse "\<lambda>v. []" sample_toString
      "PostFailed (AxiosError None ''Network Error'')" "''hi''" globals0]
  show ?thesis
    by (simp add: m globals0_def)
qed

text \<open>
  C9 at a failing input: a self-hosted request whose post fails with HTTP 404.  The
  promise of \<^verbatim>\<open>sendToDeepSeek\<close> is rejected with the AxiosError itself: it is not
  mapped to the message \<^verbatim>\<open>handleError\<close> gives for it, no \<^verbatim>\<open>error\<close> message is
  posted, and the stored controller is not cleared.  The same holds for an abort during
  the stream: the rejection, with the string \<open>canceled\<close>, is not caught either.
\<close>

theorem C9_rejection_not_caught:
  "result_promise (sendToDeepSeek sample_parse (\<lambda>v. []) sample_toString default_config
      (PostFailed (AxiosError (Some 404) ''Request failed with status code 404'')) ''hi'' globals0)
     = Rejected (AxiosError (Some 404) ''Request failed with status code 404'')
   \<and> result_posted (sendToDeepSeek sample_parse (\<lambda>v. []) sample_toString default_config
      (PostFailed (AxiosError (Some 404) ''Request failed with status code 404'')) ''hi'' globals0)
     = []
   \<and> currentAbortController (result_globals (sendToDeepSeek sample_parse (\<lambda>v. []) sample_toString default_config
      (PostFailed (AxiosError (Some 404) ''Request failed with status code 404'')) ''hi'' globals0))
     = Some 0
   \<and> handleError (AxiosError (Some 404) ''Request failed with status code 404'')
     = ''Invalid API endpoint. Check your configuration.''
   \<and> result_promise (sendToDeepSeek sample_parse (\<lambda>v. []) sample_toString default_config
      (PostOk [Data ''{\"response\":\"Hel\"}\<newline>'', Abort]) ''hi'' globals0)
     = Rejected (StringValue ''canceled'')
   \<and> result_posted (sendToDeepSeek sample_parse (\<lambda>v. []) sample_toString default_config
      (PostOk [Data ''{\"response\":\"Hel\"}\<newline>'', Abort]) ''hi'' globals0)
     = [PostMessage StartResponse, PostMessage (StreamChunk (JStr ''Hel'')),
        PostMessage StreamComplete, PostMessage StreamComplete]"
  by code_simp

section \<open>Malformed fragments in the cloud stream\<close>

text \<open>
  A malformed fragment: a line with the \<open>data: \<close> prefix whose payload does not parse
  (SyntaxError), or whose value does not have the nested \<^verbatim>\<open>choices[0].delta\<close>, so that
  reading \<^verbatim>\<open>choices[0].delta.content\<close> throws.
\<close>

definition malformed_fragment :: "(string \<Rightarrow> json option) \<Rightarrow> string \<Rightarrow> js_error \<Rightarrow> bool" where
  "malformed_fragment JSON_parse line e =
     (prefix ''data: '' line \<and>
      (case JSON_parse (drop 6 line) of
         None \<Rightarrow> e = SyntaxError
       | Some parsed \<Rightarrow> delta_content parsed = Inl e))"

lemma cloud_line_malformed:
  "malformed_fragment P line e \<Longrightarrow> cloud_line P T line acc = Inl e"
  by (cases acc) (auto simp: malformed_fragment_def cloud_line_def split: option.splits)

lemma cloud_lines_append:
  "cloud_lines P T pre acc = (acc', None) \<Longrightarrow>
   cloud_lines P T (pre @ rest) acc = cloud_lines P T rest acc'"
  by (induction pre arbitrary: acc) (auto split: sum.splits)

lemma cloud_step_settled:
  "cloud_promise r \<noteq> Pending \<Longrightarrow> cloud_promise (cloud_step P T D r ev) = cloud_promise r"
  by (cases ev)
    (simp_all add: cloud_on_data_def cloud_on_end_def cloud_on_error_def settle_def
      case_prod_unfold split: option.splits)

lemma run_cloud_settled:
  "cloud_promise r \<noteq> Pending \<Longrightarrow> cloud_promise (run_cloud P T D evs r) = cloud_promise r"
  unfolding run_cloud_def
  by (induction evs arbitrary: r) (simp_all add: cloud_step_settled)

text \<open>
  The data handler of the cloud stream does not swallow a malformed fragment: after
  lines that decode without throwing, it keeps what they produced, skips the rest of the
  chunk and rejects a pending promise with what was thrown, and the promise stays
  rejected whatever events follow.
\<close>

lemma malformed_fragment_rejects:
  assumes lines: "split_newline (D chunk) = pre @ bad # post"
    and before: "cloud_lines P T pre (cloud_fullResponse r, cloud_posted r) = ((full, out), None)"
    and bad: "malformed_fragment P bad e"
    and pending: "cloud_promise r = Pending"
  shows "cloud_on_data P T D chunk r =
           r\<lparr>cloud_fullResponse := full, cloud_promise := Rejected e, cloud_posted := out\<rparr>"
    and "cloud_promise (run_cloud P T D events (cloud_on_data P T D chunk r)) = Rejected e"
proof -
  have "cloud_lines P T (pre @ bad # post) (cloud_fullResponse r, cloud_posted r) =
      cloud_lines P T (bad # post) (full, out)"
    using before by (rule cloud_lines_append)
  also have "\<dots> = ((full, out), Some e)"
    by (simp add: cloud_line_malformed [OF bad])
  finally show a: "cloud_on_data P T D chunk r =
      r\<lparr>cloud_fullResponse := full, cloud_promise := Rejected e, cloud_posted := out\<rparr>"
    using pending by (simp add: cloud_on_data_def lines settle_def)
  show "cloud_promise (run_cloud P T D events (cloud_on_data P T D chunk r)) = Rejected e"
    unfolding a by (simp add: run_cloud_settled)
qed

text \<open>
  C6 at a failing input: the cloud account, and a server that answers with one
  well-formed fragment and ends.  \<^verbatim>\<open>handleCloudRequest\<close> posts without asking for a
  stream, so \<^verbatim>\<open>handleCloudStream\<close> gets data that is no stream: the promise of
  \<^verbatim>\<open>sendToDeepSeek\<close> is rejected with a TypeError, no fragment is decoded or posted,
  and the user turn is left without an answer.  The decoder itself, given a stream, does
  not swallow a malformed fragment either: with \<open>data: [DONE]\<close> before a well-formed
  fragment in one chunk it rejects with the SyntaxError and never decodes the fragment;
  without that line the same stream resolves with \<open>Hi\<close>.
\<close>

theorem C6_cloud_request_rejected:
  "result_promise (sendToDeepSeek sample_parse (\<lambda>v. []) sample_toString
      (default_config\<lparr>accountType := Some ''cloud''\<rparr>)
      (PostOk [Data ''data: {\"choices\":[{\"delta\":{\"content\":\"Hi\"}}]}\<newline>'', End])
      ''hi'' globals0)
     = Rejected TypeError
   \<and> result_posted (sendToDeepSeek sample_parse (\<lambda>v. []) sample_toString
      (default_config\<lparr>accountType := Some ''cloud''\<rparr>)
      (PostOk [Data ''data: {\"choices\":[{\"delta\":{\"content\":\"Hi\"}}]}\<newline>'', End])
      ''hi'' globals0)
     = []
   \<and> conversationHistory (result_globals (sendToDeepSeek sample_parse (\<lambda>v. []) sample_toString
      (default_config\<lparr>accountType := Some ''cloud''\<rparr>)
      (PostOk [Data ''data: {\"choices\":[{\"delta\":{\"content\":\"Hi\"}}]}\<newline>'', End])
      ''hi'' globals0))
     = [\<lparr>role = ''user'', content = ''hi''\<rparr>]
   \<and> handleCloudStream sample_parse (\<lambda>v. []) sample_toString
       (StreamData
          [Data ''data: [DONE]\<newline>data: {\"choices\":[{\"delta\":{\"content\":\"Hi\"}}]}'', End]) =
     \<lparr>cloud_fullResponse = [], cloud_promise = Rejected SyntaxError, cloud_posted = []\<rparr>
   \<and> handleCloudStream sample_parse (\<lambda>v. []) sample_toString
       (StreamData [Data ''data: {\"choices\":[{\"delta\":{\"content\":\"Hi\"}}]}'', End]) =
     \<lparr>cloud_fullResponse = ''Hi'', cloud_promise = Resolved ''Hi'',
      cloud_posted = [PostMessage (StreamChunk (JStr ''Hi''))]\<rparr>"
  by code_simp

section \<open>The webview: \<^verbatim>\<open>extractThinkContent\<close>\<close>

text \<open>
  The regular expression \<^verbatim>\<open>/<think>([\s\S]*?)<\/think>/\<close>, without the global flag.
  \<open>lazy_until lit s\<close> matches \<^verbatim>\<open>([\s\S]*?)\<close> followed by the literal \<open>lit\<close> at the
  start of \<open>s\<close>: the group takes as few characters as possible; the result is the
  group and what follows the match.  \<open>thinkRegex_exec\<close> is \<^verbatim>\<open>exec\<close>: the match at the
  first position where there is one, as the text before it, group 1 and the text after.
\<close>

fun lazy_until :: "string \<Rightarrow> string \<Rightarrow> (string \<times> string) option" where
  "lazy_until lit [] = (if lit = [] then Some ([], []) else None)"
| "lazy_until lit (c # cs) =
     (if prefix lit (c # cs) then Some ([], drop (length lit) (c # cs))
      else map_option (\<lambda>(captured, rest). (c # captured, rest)) (lazy_until lit cs))"

definition think_open :: string where
  "think_open = ''<think>''"

definition think_close :: string where
  "think_close = ''</think>''"

fun thinkRegex_exec :: "string \<Rightarrow> (string \<times> string \<times> string) option" where
  "thinkRegex_exec [] = None"
| "thinkRegex_exec (c # cs) =
     (case (if prefix think_open (c # cs)
            then lazy_until think_close (drop (length think_open) (c # cs)) else None) of
        Some (captured, rest) \<Rightarrow> Some ([], captured, rest)
      | None \<Rightarrow>
          map_option (\<lambda>(before, captured, rest). (c # before, captured, rest))
            (thinkRegex_exec cs))"

text \<open>
  \<^verbatim>\<open>extractThinkContent\<close>: with a match, \<^verbatim>\<open>thinkContent\<close> is group 1 and
  \<^verbatim>\<open>mainText\<close> is the text with that match replaced by the empty string.
\<close>

record think_split =
  mainText :: string
  thinkContent :: string

definition extractThinkContent :: "string \<Rightarrow> think_split" where
  "extractThinkContent text =
     (case thinkRegex_exec text of
        None \<Rightarrow> \<lparr>mainText = text, thinkContent = []\<rparr>
      | Some (before, captured, rest) \<Rightarrow> \<lparr>mainText = before @ rest, thinkContent = captured\<rparr>)"


lemma prefix_drop: "prefix p s \<Longrightarrow> s = p @ drop (length p) s"
  by (auto simp: prefix_def)

lemma lazy_until_sound:
  "lazy_until lit s = Some (captured, rest) \<Longrightarrow> s = captured @ lit @ rest"
proof (induction s arbitrary: captured)
  case Nil
  then show ?case by (simp split: if_splits)
next
  case (Cons c cs)
  show ?case
  proof (cases "prefix lit (c # cs)")
    case True
    with Cons.prems have "captured = []" and "rest = drop (length lit) (c # cs)"
      by simp_all
    moreover from True have "c # cs = lit @ drop (length lit) (c # cs)"
      by (rule prefix_drop)
    ultimately show ?thesis by simp
  next
    case False
    with Cons.prems obtain cap' where "lazy_until lit cs = Some (cap', rest)" and "captured = c # cap'"
      by auto
    with Cons.IH show ?thesis by simp
  qed
qed

lemma thinkRegex_exec_sound:
  "thinkRegex_exec s = Some (before, captured, rest) \<Longrightarrow>
   s = before @ think_open @ captured @ think_close @ rest"
proof (induction s arbitrary: before)
  case Nil
  then show ?case by simp
next
  case (Cons c cs)
  let ?here = "if prefix think_open (c # cs)
               then lazy_until think_close (drop (length think_open) (c # cs)) else None"
  show ?case
  proof (cases ?here)
    case None
    with Cons.prems obtain b' where "thinkRegex_exec cs = Some (b', captured, rest)" and "before = c # b'"
      by auto
    with Cons.IH show ?thesis by simp
  next
    case (Some m)
    then have p: "prefix think_open (c # cs)"
      and l: "lazy_until think_close (drop (length think_open) (c # cs)) = Some m"
      by (auto split: if_splits)
    from Some Cons.prems have m: "m = (captured, rest)" and b: "before = []"
      by (auto split: prod.splits)
    from l m have "drop (length think_open) (c # cs) = captured @ think_close @ rest"
      by (simp only: lazy_until_sound)
    with prefix_drop [OF p] have "c # cs = think_open @ captured @ think_close @ rest"
      by (simp only:)
    with b show ?thesis
      by (simp only: append_Nil)
  qed
qed

lemma lazy_until_first:
  "\<forall>i < length b. \<not> prefix lit (drop i (b @ lit @ c)) \<Longrightarrow>
   lazy_until lit (b @ lit @ c) = Some (b, c)"
proof (induction b)
  case Nil
  show ?case
  proof (cases "lit @ c")
    case Nil
    then show ?thesis by simp
  next
    case (Cons y ys)
    have p: "prefix lit (y # ys)"
      unfolding Cons [symmetric] by simp
    have d: "drop (length lit) (y # ys) = c"
      unfolding Cons [symmetric] by simp
    show ?thesis
      using p d Cons by simp
  qed
next
  case (Cons x b)
  from Cons.prems have here: "\<not> prefix lit (x # b @ lit @ c)"
    by auto
  from Cons.prems have "\<forall>i < length b. \<not> prefix lit (drop i (b @ lit @ c))"
    by (auto simp: All_less_Suc2)
  then have "lazy_until lit (b @ lit @ c) = Some (b, c)"
    by (rule Cons.IH)
  with here show ?case
    by simp
qed

lemma thinkRegex_exec_first:
  assumes "\<forall>i < length a. \<not> prefix think_open (drop i (a @ think_open @ r))"
    and "lazy_until think_close r = Some (captured, rest)"
  shows "thinkRegex_exec (a @ think_open @ r) = Some (a, captured, rest)"
  using assms(1)
proof (induction a)
  case Nil
  obtain y ys where o: "think_open @ r = y # ys"
    by (cases "think_open @ r") (simp_all add: think_open_def)
  have p: "prefix think_open (y # ys)"
    unfolding o [symmetric] by simp
  have d: "drop (length think_open) (y # ys) = r"
    unfolding o [symmetric] by simp
  show ?case
    using p d o assms(2) by simp
next
  case (Cons x a)
  from Cons.prems have here: "\<not> prefix think_open (x # a @ think_open @ r)"
    by auto
  from Cons.prems have "\<forall>i < length a. \<not> prefix think_open (drop i (a @ think_open @ r))"
    by (auto simp: All_less_Suc2)
  then have "thinkRegex_exec (a @ think_open @ r) = Some (a, captured, rest)"
    by (rule Cons.IH)
  with here show ?case
    by simp
qed

text \<open>
  A tag that begins with a character it does not contain again cannot overlap itself: an
  occurrence that starts inside \<open>b\<close>, in \<open>b\<close> followed by the tag, lies inside \<open>b\<close>.
\<close>

lemma tag_no_overlap:
  assumes tag: "tag = x # t" and x: "x \<notin> set t"
    and nosub: "\<not> sublist tag b"
  shows "\<forall>i < length b. \<not> prefix tag (drop i (b @ tag @ c))"
proof (intro allI impI notI)
  fix i
  assume i: "i < length b" and p: "prefix tag (drop i (b @ tag @ c))"
  from i have d: "drop i (b @ tag @ c) = drop i b @ tag @ c"
    by simp
  from p d obtain r where eq: "drop i b @ tag @ c = tag @ r"
    by (auto simp: prefix_def)
  from i obtain y d' where db: "drop i b = y # d'"
    by (cases "drop i b") auto
  from eq obtain us where
    "drop i b = tag @ us \<and> us @ tag @ c = r \<or> drop i b @ us = tag \<and> tag @ c = us @ r"
    unfolding append_eq_append_conv2 by blast
  then show False
  proof
    assume "drop i b = tag @ us \<and> us @ tag @ c = r"
    then have "b = take i b @ tag @ us"
      by (metis append_take_drop_id)
    then have "sublist tag b"
      unfolding sublist_def by blast
    with nosub show False ..
  next
    assume "drop i b @ us = tag \<and> tag @ c = us @ r"
    then have t1: "drop i b @ us = tag" and t2: "tag @ c = us @ r"
      by simp_all
    from t1 db tag have t: "t = d' @ us"
      by auto
    show False
    proof (cases us)
      case Nil
      with t1 have "drop i b = tag" by simp
      then have "b = take i b @ tag @ []"
        by (metis append_take_drop_id append_Nil2)
      then have "sublist tag b"
        unfolding sublist_def by blast
      with nosub show False ..
    next
      case (Cons u us')
      with t2 tag have "u = x" by simp
      with Cons t have "x \<in> set t" by simp
      with x show False ..
    qed
  qed
qed

text \<open>
  C3. \<^verbatim>\<open>extractThinkContent\<close> splits \<open>A<think>B</think>C\<close> into the main text
  \<open>AC\<close> and the reasoning \<open>B\<close>; a text that has no start tag followed later by
  an end tag is returned unchanged as the main text, with empty reasoning.
\<close>

theorem C3_extract_think_content:
  "extractThinkContent ''A<think>B</think>C'' = \<lparr>mainText = ''AC'', thinkContent = ''B''\<rparr>
   \<and> ((\<nexists>a b c. text = a @ ''<think>'' @ b @ ''</think>'' @ c) \<longrightarrow>
        extractThinkContent text = \<lparr>mainText = text, thinkContent = []\<rparr>)"
proof (intro conjI impI)
  show "extractThinkContent ''A<think>B</think>C'' = \<lparr>mainText = ''AC'', thinkContent = ''B''\<rparr>"
    by code_simp
next
  assume none: "\<nexists>a b c. text = a @ ''<think>'' @ b @ ''</think>'' @ c"
  have "thinkRegex_exec text = None"
  proof (cases "thinkRegex_exec text")
    case None
    then show ?thesis .
  next
    case (Some m)
    obtain a b c where "m = (a, b, c)"
      by (cases m)
    with Some have "text = a @ think_open @ b @ think_close @ c"
      by (simp only: thinkRegex_exec_sound)
    then have "\<exists>a b c. text = a @ ''<think>'' @ b @ ''</think>'' @ c"
      unfolding think_open_def think_close_def by blast
    with none show ?thesis by blast
  qed
  then show "extractThinkContent text = \<lparr>mainText = text, thinkContent = []\<rparr>"
    by (simp add: extractThinkContent_def)
qed

theorem C3_extract_think_content_witness:
  "extractThinkContent ''A<think>B</thi'' =
     \<lparr>mainText = ''A<think>B</thi'', thinkContent = []\<rparr>"
proof -
  have "\<nexists>a b c. ''A<think>B</thi'' = a @ ''<think>'' @ b @ ''</think>'' @ c"
  proof
    assume "\<exists>a b c. ''A<think>B</thi'' = a @ ''<think>'' @ b @ ''</think>'' @ c"
    then obtain a b c where "''A<think>B</thi'' = a @ ''<think>'' @ b @ ''</think>'' @ c"
      by blast
    then have "length ''A<think>B</thi'' = length (a @ ''<think>'' @ b @ ''</think>'' @ c)"
      by (rule arg_cong)
    then show False
      by simp
  qed
  with C3_extract_think_content [of "''A<think>B</thi''"] show ?thesis
    by blast
qed

text \<open>
  C10. In a text \<open>a<think>b</think>c\<close> where \<open>a\<close> has no start tag and \<open>b\<close> no end
  tag, so that this is the first pair, the reasoning is \<open>b\<close> and the main text is \<open>a\<close>
  followed by \<open>c\<close> as it is: every later pair, tags included, stays in the main text.
\<close>

theorem C10_only_first_pair:
  assumes first_open: "\<not> sublist ''<think>'' a"
    and first_close: "\<not> sublist ''</think>'' b"
  shows "extractThinkContent (a @ ''<think>'' @ b @ ''</think>'' @ c) =
           \<lparr>mainText = a @ c, thinkContent = b\<rparr>"
proof -
  have oc: "think_open = CHR ''<'' # ''think>''" "CHR ''<'' \<notin> set ''think>''"
    and cc: "think_close = CHR ''<'' # ''/think>''" "CHR ''<'' \<notin> set ''/think>''"
    by (simp_all add: think_open_def think_close_def)
  have no: "\<not> sublist think_open a"
    unfolding think_open_def by (rule first_open)
  have nc: "\<not> sublist think_close b"
    unfolding think_close_def by (rule first_close)
  have "\<forall>i < length b. \<not> prefix think_close (drop i (b @ think_close @ c))"
    using cc nc by (rule tag_no_overlap)
  then have l: "lazy_until think_close (b @ think_close @ c) = Some (b, c)"
    by (rule lazy_until_first)
  have "\<forall>i < length a. \<not> prefix think_open (drop i (a @ think_open @ b @ think_close @ c))"
    using oc no by (rule tag_no_overlap)
  then have "thinkRegex_exec (a @ think_open @ b @ think_close @ c) = Some (a, b, c)"
    using l by (rule thinkRegex_exec_first)
  then have "extractThinkContent (a @ think_open @ b @ think_close @ c) =
      \<lparr>mainText = a @ c, thinkContent = b\<rparr>"
    by (simp only: extractThinkContent_def option.case prod.case)
  then show ?thesis
    by (simp only: think_open_def think_close_def)
qed

theorem C10_only_first_pair_witness:
  "extractThinkContent ''A<think>B</think>C<think>D</think>E'' =
     \<lparr>mainText = ''AC<think>D</think>E'', thinkContent = ''B''\<rparr>"
proof -
  have h1: "\<not> sublist ''<think>'' ''A''"
    by (simp add: sublist_Cons_right)
  have h2: "\<not> sublist ''</think>'' ''B''"
    by (simp add: sublist_Cons_right)
  from C10_only_first_pair [OF h1 h2, of "''C<think>D</think>E''"] show ?thesis
    by simp
qed


end
